theory Spec2Isabelle
  imports Complex_Main
begin

section \<open>Wire data (package dto)\<close>

datatype PrincipalKind = KindUsername | KindIP

record PrincipalDTO =
  Name :: string
  Kind :: PrincipalKind

text \<open>A history entry; \<open>Timestamp\<close> is the int64 Unix-millisecond field. The delivery code
  only compares and copies it, so it is an \<open>int\<close> here.\<close>

record VisitedSite =
  URL :: string
  Timestamp :: int

record VisitedSitesDTO =
  Principal :: PrincipalDTO
  VisitedSites :: "VisitedSite list"
  Source :: string

definition NewUserPrincipal :: "string \<Rightarrow> PrincipalDTO" where
  "NewUserPrincipal username = \<lparr>Name = username, Kind = KindUsername\<rparr>"

definition NewIPPrincipal :: "string \<Rightarrow> PrincipalDTO" where
  "NewIPPrincipal ip = \<lparr>Name = ip, Kind = KindIP\<rparr>"

section \<open>Delivery transport (package sender)\<close>

text \<open>The client. The \<open>http.Client\<close> with its timeout is part of the environment below.\<close>

record Client =
  serverURL :: string
  apiKey :: string
  maxChunkSize :: int
  compress :: bool

text \<open>\<open>NewClient\<close> takes the ceiling in kilobytes; its timeout goes to the \<open>http.Client\<close>.\<close>

definition NewClient :: "string \<Rightarrow> string \<Rightarrow> int \<Rightarrow> bool \<Rightarrow> Client" where
  "NewClient url key maxChunkSizeKB compression =
     \<lparr>serverURL = url, apiKey = key, maxChunkSize = maxChunkSizeKB * 1024,
      compress = compression\<rparr>"

text \<open>The errors \<open>sendChunk\<close> can return: \<open>http.NewRequest\<close> refusing the URL, the round
  trip failing (network, timeout), and \<open>httpError\<close> for a status outside 200..299. Marshalling
  this struct and writing gzip into a memory buffer do not fail.\<close>

datatype send_error = RequestCreateFailed | RequestFailed | HttpError int

record SendResult =
  TotalSent :: nat
  ChunksSent :: nat
  LastError :: "send_error option"
  FailedCount :: nat
  BytesSent :: nat
  BytesOriginal :: nat

text \<open>One HTTP POST as it leaves the client, and what comes back.\<close>

record request =
  req_url :: string
  content_encoding_gzip :: bool
  authorization :: string
  body :: string

datatype response = TransportError | Status int

text \<open>What the client calls outside this repository: \<open>json.Marshal\<close>, the gzip writer,
  \<open>http.NewRequest\<close> (which accepts or rejects the configured URL) and \<open>httpClient.Do\<close>, whose
  answer may depend on every request made so far and on the current one. The state threaded
  through the sender is the list of requests issued so far.\<close>

record transport =
  json_marshal :: "VisitedSitesDTO \<Rightarrow> string"
  gzip_compress :: "string \<Rightarrow> string"
  new_request_ok :: "string \<Rightarrow> bool"
  round_trip :: "request list \<Rightarrow> request \<Rightarrow> response"

definition do_request :: "transport \<Rightarrow> request list \<Rightarrow> request \<Rightarrow> nat \<Rightarrow>
    (nat \<times> send_error option) \<times> request list" where
  "do_request env wire req n =
     (case round_trip env wire req of
        TransportError \<Rightarrow> ((0, Some RequestFailed), wire @ [req])
      | Status statusCode \<Rightarrow>
          if statusCode < 200 \<or> statusCode \<ge> 300
          then ((0, Some (HttpError statusCode)), wire @ [req])
          else ((n, None), wire @ [req]))"

text \<open>Whether a round trip ended with a status in 200..299.\<close>

definition accepted :: "response \<Rightarrow> bool" where
  "accepted r =
     (case r of
        TransportError \<Rightarrow> False
      | Status statusCode \<Rightarrow> 200 \<le> statusCode \<and> statusCode < 300)"

text \<open>\<open>sendWithGzip\<close> hands the buffer \<open>compressed\<close> itself to the request as its body and
  reads \<open>compressed.Len()\<close> only after \<open>httpClient.Do\<close> has consumed it: the byte count it
  returns on success is that of the emptied buffer, 0.\<close>

definition sendWithGzip :: "Client \<Rightarrow> transport \<Rightarrow> request list \<Rightarrow> string \<Rightarrow>
    (nat \<times> send_error option) \<times> request list" where
  "sendWithGzip c env wire data =
     (let compressed = gzip_compress env data in
      if \<not> new_request_ok env (serverURL c) then ((0, Some RequestCreateFailed), wire)
      else do_request env wire
             \<lparr>req_url = serverURL c, content_encoding_gzip = True,
              authorization = ''ProxyToken '' @ apiKey c, body = compressed\<rparr>
             0)"

definition sendRaw :: "Client \<Rightarrow> transport \<Rightarrow> request list \<Rightarrow> string \<Rightarrow>
    (nat \<times> send_error option) \<times> request list" where
  "sendRaw c env wire data =
     (if \<not> new_request_ok env (serverURL c) then ((0, Some RequestCreateFailed), wire)
      else do_request env wire
             \<lparr>req_url = serverURL c, content_encoding_gzip = False,
              authorization = ''ProxyToken '' @ apiKey c, body = data\<rparr>
             (length data))"

fun isUnsupportedMediaType :: "send_error \<Rightarrow> bool" where
  "isUnsupportedMediaType (HttpError statusCode) = (statusCode = 415)"
| "isUnsupportedMediaType _ = False"

text \<open>\<open>sendChunk\<close> returns (bytesSent, bytesOriginal, err) and the new list of requests.\<close>

definition sendChunk :: "Client \<Rightarrow> transport \<Rightarrow> request list \<Rightarrow> VisitedSitesDTO \<Rightarrow>
    (nat \<times> nat \<times> send_error option) \<times> request list" where
  "sendChunk c env wire payload =
     (let data = json_marshal env payload;
          bytesOriginal = length data
      in if compress c then
           (case sendWithGzip c env wire data of
              ((bytesSent, None), wire1) \<Rightarrow> ((bytesSent, bytesOriginal, None), wire1)
            | ((bytesSent, Some err), wire1) \<Rightarrow>
                if isUnsupportedMediaType err then
                  (case sendRaw c env wire1 data of
                     ((bytesSent2, err2), wire2) \<Rightarrow> ((bytesSent2, bytesOriginal, err2), wire2))
                else ((0, bytesOriginal, Some err), wire1))
         else
           (case sendRaw c env wire data of
              ((bytesSent, err), wire1) \<Rightarrow> ((bytesSent, bytesOriginal, err), wire1)))"

subsection \<open>Chunking\<close>

text \<open>\<open>int(float64(currentSize) * 0.3)\<close>: the product with the double nearest to 0.3, truncated.
  For a size \<open>0 \<le> n < 2^31\<close> the rounding error of the product is far below the distance of
  \<open>3n/10\<close> to the next integer unless \<open>3n/10\<close> is an integer, and then the product rounds to
  that integer; so the truncated value is \<open>3n div 10\<close>.\<close>

definition compressed_estimate :: "int \<Rightarrow> int" where
  "compressed_estimate currentSize = (currentSize * 3) div 10"

definition entrySize :: "VisitedSite \<Rightarrow> int" where
  "entrySize site = int (length (URL site)) + 40"

definition seal :: "VisitedSitesDTO \<Rightarrow> VisitedSite list \<Rightarrow> VisitedSitesDTO" where
  "seal payload currentSites =
     \<lparr>Principal = Principal payload, VisitedSites = currentSites, Source = Source payload\<rparr>"

text \<open>The loop of \<open>buildChunks\<close>, with its three variables \<open>chunks\<close>, \<open>currentSites\<close>
  and \<open>currentSize\<close>.\<close>

fun buildChunks_loop :: "Client \<Rightarrow> VisitedSitesDTO \<Rightarrow> VisitedSite list \<Rightarrow>
    VisitedSitesDTO list \<Rightarrow> VisitedSite list \<Rightarrow> int \<Rightarrow>
    VisitedSitesDTO list \<times> VisitedSite list \<times> int" where
  "buildChunks_loop c payload [] chunks currentSites currentSize =
     (chunks, currentSites, currentSize)"
| "buildChunks_loop c payload (site # rest) chunks currentSites currentSize =
     (let estimatedCompressedSize =
            (if compress c then compressed_estimate currentSize else currentSize)
      in if length currentSites > 0 \<and>
            estimatedCompressedSize + entrySize site > maxChunkSize c
         then buildChunks_loop c payload rest
                (chunks @ [seal payload currentSites]) ([] @ [site]) (0 + entrySize site)
         else buildChunks_loop c payload rest
                chunks (currentSites @ [site]) (currentSize + entrySize site))"

definition buildChunks :: "Client \<Rightarrow> VisitedSitesDTO \<Rightarrow> VisitedSitesDTO list" where
  "buildChunks c payload =
     (case buildChunks_loop c payload (VisitedSites payload) [] [] 0 of
        (chunks, currentSites, currentSize) \<Rightarrow>
          if length currentSites > 0 then chunks @ [seal payload currentSites] else chunks)"

subsection \<open>Send\<close>

fun max_timestamp_loop :: "VisitedSite list \<Rightarrow> int \<Rightarrow> int" where
  "max_timestamp_loop [] maxTimestamp = maxTimestamp"
| "max_timestamp_loop (site # rest) maxTimestamp =
     max_timestamp_loop rest
       (if Timestamp site > maxTimestamp then Timestamp site else maxTimestamp)"

definition empty_result :: SendResult where
  "empty_result = \<lparr>TotalSent = 0, ChunksSent = 0, LastError = None, FailedCount = 0,
                    BytesSent = 0, BytesOriginal = 0\<rparr>"

text \<open>The loop over the chunks: a failed chunk is counted and the loop goes on with the
  next one.\<close>

fun Send_loop :: "Client \<Rightarrow> transport \<Rightarrow> VisitedSitesDTO list \<Rightarrow>
    SendResult \<Rightarrow> int \<Rightarrow> request list \<Rightarrow> SendResult \<times> int \<times> request list" where
  "Send_loop c env [] result maxTimestamp wire = (result, maxTimestamp, wire)"
| "Send_loop c env (chunk # rest) result maxTimestamp wire =
     (case sendChunk c env wire chunk of
        ((bytesSent, bytesOriginal, Some err), wire1) \<Rightarrow>
          Send_loop c env rest
            (result\<lparr>LastError := Some err,
                    FailedCount := FailedCount result + length (VisitedSites chunk)\<rparr>)
            maxTimestamp wire1
      | ((bytesSent, bytesOriginal, None), wire1) \<Rightarrow>
          Send_loop c env rest
            (result\<lparr>TotalSent := TotalSent result + length (VisitedSites chunk),
                    ChunksSent := ChunksSent result + 1,
                    BytesSent := BytesSent result + bytesSent,
                    BytesOriginal := BytesOriginal result + bytesOriginal\<rparr>)
            (max_timestamp_loop (VisitedSites chunk) maxTimestamp) wire1)"

text \<open>\<open>Send\<close> returns (result, maxTimestamp, err) and the new list of requests.\<close>

definition Send :: "Client \<Rightarrow> transport \<Rightarrow> request list \<Rightarrow> VisitedSitesDTO \<Rightarrow>
    SendResult \<times> int \<times> send_error option \<times> request list" where
  "Send c env wire payload =
     (if length (VisitedSites payload) = 0 then (empty_result, 0, None, wire)
      else
        (case Send_loop c env (buildChunks c payload) empty_result 0 wire of
           (result, maxTimestamp, wire1) \<Rightarrow>
             if TotalSent result = 0 \<and> LastError result \<noteq> None
             then (result, 0, LastError result, wire1)
             else (result, maxTimestamp, None, wire1)))"

text \<open>Which chunks of a list the loop of \<open>Send\<close> gets confirmed (\<open>True\<close>) when it sends
  them in order, and the records of the confirmed ones.\<close>

fun chunk_outcomes :: "Client \<Rightarrow> transport \<Rightarrow> VisitedSitesDTO list \<Rightarrow> request list \<Rightarrow>
    bool list" where
  "chunk_outcomes c env [] wire = []"
| "chunk_outcomes c env (chunk # rest) wire =
     (case sendChunk c env wire chunk of
        ((bytesSent, bytesOriginal, err), wire1) \<Rightarrow>
          (err = None) # chunk_outcomes c env rest wire1)"

definition confirmed_sites :: "Client \<Rightarrow> transport \<Rightarrow> VisitedSitesDTO list \<Rightarrow> request list \<Rightarrow>
    VisitedSite list" where
  "confirmed_sites c env chunks wire =
     concat (map (\<lambda>(chunk, ok). VisitedSites chunk)
       (filter (\<lambda>(chunk, ok). ok) (zip chunks (chunk_outcomes c env chunks wire))))"

text \<open>The error each chunk of a list ends with (\<open>None\<close> when it is confirmed), and the last
  error in such a list.\<close>

fun chunk_errors :: "Client \<Rightarrow> transport \<Rightarrow> VisitedSitesDTO list \<Rightarrow> request list \<Rightarrow>
    send_error option list" where
  "chunk_errors c env [] wire = []"
| "chunk_errors c env (chunk # rest) wire =
     (case sendChunk c env wire chunk of
        ((bytesSent, bytesOriginal, err), wire1) \<Rightarrow> err # chunk_errors c env rest wire1)"

definition last_failure :: "send_error option list \<Rightarrow> send_error option" where
  "last_failure errs =
     (case rev (filter (\<lambda>err. err \<noteq> None) errs) of [] \<Rightarrow> None | err # earlier \<Rightarrow> err)"

text \<open>The size estimate the splitting uses for a list of records, and the sealing test of
  the loop for the next record.\<close>

definition chunk_estimate :: "Client \<Rightarrow> VisitedSite list \<Rightarrow> int" where
  "chunk_estimate c sites =
     (if compress c then compressed_estimate (sum_list (map entrySize sites))
      else sum_list (map entrySize sites))"

definition must_seal :: "Client \<Rightarrow> VisitedSite list \<Rightarrow> int \<Rightarrow> VisitedSite \<Rightarrow> bool" where
  "must_seal c currentSites currentSize site =
     (currentSites \<noteq> [] \<and>
      (if compress c then compressed_estimate currentSize else currentSize) + entrySize site
        > maxChunkSize c)"

definition within_ceiling :: "Client \<Rightarrow> VisitedSite list \<Rightarrow> bool" where
  "within_ceiling c sites = (chunk_estimate c sites \<le> maxChunkSize c \<or> length sites = 1)"

section \<open>Platform, file system and databases\<close>

datatype OS = Linux | Windows | Darwin | OtherOS

record User =
  Username :: string
  HomeDir :: string
  UID :: string

text \<open>The error of an \<open>os\<close> call: \<open>None\<close> is Go's \<open>nil\<close>.\<close>

datatype os_error = ErrNotExist | ErrPermission | ErrOther

definition IsNotExist :: "os_error option \<Rightarrow> bool" where
  "IsNotExist err = (err = Some ErrNotExist)"

record DirEntry =
  EntryName :: string
  IsDir :: bool

text \<open>Int64 arithmetic wraps around; \<open>/\<close> truncates towards zero.\<close>

definition wrap64 :: "int \<Rightarrow> int" where
  "wrap64 x = (x + 2 ^ 63) mod 2 ^ 64 - 2 ^ 63"

definition quot :: "int \<Rightarrow> int \<Rightarrow> int" where
  "quot a b = sgn a * sgn b * (\<bar>a\<bar> div \<bar>b\<bar>)"

subsection \<open>float64\<close>

text \<open>A finite \<open>float64\<close> value is modelled by the rational number it stands for. An
  arithmetic operation of Go is the exact operation followed by \<open>float64\<close>, the rounding to
  the nearest value with a significand of 53 bits, ties to the even significand, with the
  subnormal values below \<open>2^-1022\<close>. Infinities and NaN are not modelled: a result beyond the
  largest finite value is outside this model.\<close>

function bit_length :: "int \<Rightarrow> int" where
  "bit_length n = (if n \<le> 0 then 0 else bit_length (n div 2) + 1)"
  by pat_completeness auto
termination
  by (relation "measure nat") auto

declare bit_length.simps [simp del]

text \<open>The integer part of the binary logarithm of a positive rational.\<close>

definition ilog2 :: "rat \<Rightarrow> int" where
  "ilog2 x =
     (if 1 \<le> x then bit_length \<lfloor>x\<rfloor> - 1
      else - bit_length (\<lceil>1 / x\<rceil> - 1))"

definition round_half_even :: "rat \<Rightarrow> int" where
  "round_half_even x =
     (let n = \<lfloor>x\<rfloor>; r = x - of_int n
      in if r < 1 / 2 then n
         else if 1 / 2 < r then n + 1
         else if even n then n else n + 1)"

definition float64_exponent :: "rat \<Rightarrow> int" where
  "float64_exponent x = max (ilog2 \<bar>x\<bar> - 52) (- 1074)"

definition float64 :: "rat \<Rightarrow> rat" where
  "float64 x =
     (if x = 0 then 0
      else sgn x * (of_int (round_half_even (\<bar>x\<bar> / 2 powi float64_exponent x)) *
             2 powi float64_exponent x))"

text \<open>The conversion \<open>int64(x)\<close> of a \<open>float64\<close> drops the fraction. For a value outside the
  \<open>int64\<close> range Go leaves the result to the platform; the value here is the one of amd64.\<close>

definition int64_of_float64 :: "rat \<Rightarrow> int" where
  "int64_of_float64 x =
     (let t = (if 0 \<le> x then \<lfloor>x\<rfloor> else \<lceil>x\<rceil>)
      in if - (2 ^ 63) \<le> t \<and> t < 2 ^ 63 then t else - (2 ^ 63))"

subsection \<open>History databases\<close>

text \<open>The \<open>urls\<close> table of a Chromium history database. The \<open>url\<close> column may hold NULL, which
  \<open>rows.Scan\<close> into a string refuses; \<open>last_visit_time\<close> is an integer. A query may fail, and
  the iteration over its rows may break off with \<open>rows.Err()\<close> set after some rows.\<close>

datatype db_error = OpenFailed | QueryFailed | RowsFailed

record url_row =
  row_url :: "string option"
  last_visit_time :: int

text \<open>The \<open>moz_places\<close> table of Firefox, whose \<open>last_visit_date\<close> may be NULL, and the
  tables \<open>history_items\<close> and \<open>history_visits\<close> of Safari, whose \<open>visit_time\<close> is a float.\<close>

record place_row =
  place_url :: "string option"
  last_visit_date :: "int option"

record item_row =
  item_id :: int
  item_url :: "string option"

record visit_row =
  history_item :: int
  visit_time :: rat

record history_db =
  urls :: "url_row list"
  moz_places :: "place_row list"
  history_items :: "item_row list"
  history_visits :: "visit_row list"
  query_fails :: bool
  rows_break :: "nat option"

record os_env =
  CurrentOS :: OS
  Stat :: "string \<Rightarrow> os_error option"
  ReadDir :: "string \<Rightarrow> DirEntry list \<times> os_error option"
  Getenv :: "string \<Rightarrow> string"
  db_Open :: "string \<Rightarrow> history_db option"

definition Separator :: "OS \<Rightarrow> string" where
  "Separator os = (if os = Windows then [CHR 0x5C] else ''/'')"

definition IsPathSeparator :: "OS \<Rightarrow> char \<Rightarrow> bool" where
  "IsPathSeparator os ch = (ch = CHR ''/'' \<or> (os = Windows \<and> ch = CHR 0x5C))"

fun join_elems :: "string \<Rightarrow> string list \<Rightarrow> string" where
  "join_elems sep [] = []"
| "join_elems sep [e] = e"
| "join_elems sep (e # es) = e @ sep @ join_elems sep es"

text \<open>\<open>filepath.Clean\<close>: the path is cut at its separators; empty elements and \<open>.\<close> are
  dropped, \<open>..\<close> removes the element before it (at the start it is dropped in a rooted path
  and kept otherwise), and the empty result is \<open>.\<close>. On Windows a drive letter with its colon
  is kept in front; UNC volume names are not distinguished.\<close>

fun split_path :: "OS \<Rightarrow> string \<Rightarrow> string \<Rightarrow> string list" where
  "split_path os [] elem = [elem]"
| "split_path os (ch # rest) elem =
     (if IsPathSeparator os ch then elem # split_path os rest []
      else split_path os rest (elem @ [ch]))"

fun clean_elems :: "bool \<Rightarrow> string list \<Rightarrow> string list \<Rightarrow> string list" where
  "clean_elems rooted [] out = out"
| "clean_elems rooted (e # es) out =
     (if e = [] \<or> e = ''.'' then clean_elems rooted es out
      else if e = ''..'' then
        (if out \<noteq> [] \<and> last out \<noteq> ''..'' then clean_elems rooted es (butlast out)
         else if rooted then clean_elems rooted es out
         else clean_elems rooted es (out @ [''..'']))
      else clean_elems rooted es (out @ [e]))"

definition volume_length :: "OS \<Rightarrow> string \<Rightarrow> nat" where
  "volume_length os path =
     (if os = Windows \<and> length path \<ge> 2 \<and> path ! 1 = CHR '':'' then 2 else 0)"

definition Clean :: "OS \<Rightarrow> string \<Rightarrow> string" where
  "Clean os path =
     (let vol = take (volume_length os path) path;
          rest = drop (volume_length os path) path;
          rooted = (rest \<noteq> [] \<and> IsPathSeparator os (hd rest));
          cleaned = (if rooted then Separator os else []) @
            join_elems (Separator os) (clean_elems rooted (split_path os rest []) [])
      in if cleaned = [] then vol @ ''.'' else vol @ cleaned)"

text \<open>\<open>filepath.Join\<close>: the non-empty elements, joined by the separator and cleaned; the
  empty string when there is none.\<close>

definition Join :: "os_env \<Rightarrow> string list \<Rightarrow> string" where
  "Join env elems =
     (let nonEmpty = filter (\<lambda>e. e \<noteq> []) elems
      in if nonEmpty = [] then []
         else Clean (CurrentOS env) (join_elems (Separator (CurrentOS env)) nonEmpty))"

definition HasPrefix :: "string \<Rightarrow> string \<Rightarrow> bool" where
  "HasPrefix s prefix = (take (length prefix) s = prefix)"

section \<open>Record sources (package browser)\<close>

record Profile =
  ProfileName :: string
  Path :: string

record ChromiumPaths =
  LinuxPath :: string
  DarwinPath :: string
  WindowsPath :: string
  WindowsAppData :: bool

record ChromiumBrowser =
  name :: string
  paths :: ChromiumPaths
  hasProfiles :: bool

definition getBaseDir :: "os_env \<Rightarrow> ChromiumBrowser \<Rightarrow> User \<Rightarrow> string" where
  "getBaseDir env c user =
     (case CurrentOS env of
        Linux \<Rightarrow>
          if LinuxPath (paths c) = [] then [] else Join env [HomeDir user, LinuxPath (paths c)]
      | Darwin \<Rightarrow>
          if DarwinPath (paths c) = [] then [] else Join env [HomeDir user, DarwinPath (paths c)]
      | Windows \<Rightarrow>
          if WindowsPath (paths c) = [] then []
          else
            (let baseEnv = (if WindowsAppData (paths c) then ''APPDATA'' else ''LOCALAPPDATA'')
             in if HomeDir user \<noteq> [] then
                  (let appDataPath =
                         (if WindowsAppData (paths c)
                          then Join env [HomeDir user, ''AppData'', ''Roaming'']
                          else Join env [HomeDir user, ''AppData'', ''Local''])
                   in Join env [appDataPath, WindowsPath (paths c)])
                else
                  (let base = Getenv env baseEnv
                   in if base = [] then [] else Join env [base, WindowsPath (paths c)]))
      | OtherOS \<Rightarrow> [])"

text \<open>The loop of \<open>FindProfiles\<close> over the directory entries.\<close>

fun profile_dirs :: "os_env \<Rightarrow> string \<Rightarrow> DirEntry list \<Rightarrow> Profile list \<Rightarrow> Profile list" where
  "profile_dirs env baseDir [] profiles = profiles"
| "profile_dirs env baseDir (entry # rest) profiles =
     (if \<not> IsDir entry then profile_dirs env baseDir rest profiles
      else if EntryName entry = ''Default'' \<or> HasPrefix (EntryName entry) ''Profile '' then
        (let profilePath = Join env [baseDir, EntryName entry];
             historyPath = Join env [profilePath, ''History'']
         in if Stat env historyPath = None
            then profile_dirs env baseDir rest
                   (profiles @ [\<lparr>ProfileName = EntryName entry, Path = profilePath\<rparr>])
            else profile_dirs env baseDir rest profiles)
      else profile_dirs env baseDir rest profiles)"

text \<open>\<open>FindProfiles\<close> returns (profiles, err).\<close>

definition ChromiumFindProfiles :: "os_env \<Rightarrow> ChromiumBrowser \<Rightarrow> User \<Rightarrow>
    Profile list \<times> os_error option" where
  "ChromiumFindProfiles env c user =
     (let baseDir = getBaseDir env c user
      in if baseDir = [] then ([], None)
         else if IsNotExist (Stat env baseDir) then ([], None)
         else if hasProfiles c then
           (case ReadDir env baseDir of
              (entries, Some err) \<Rightarrow> ([], None)
            | (entries, None) \<Rightarrow> (profile_dirs env baseDir entries [], None))
         else
           (let historyPath = Join env [baseDir, ''History'']
            in if Stat env historyPath = None
               then ([] @ [\<lparr>ProfileName = ''Default'', Path = baseDir\<rparr>], None)
               else ([], None)))"

definition SafariFindProfiles :: "os_env \<Rightarrow> User \<Rightarrow> Profile list \<times> os_error option" where
  "SafariFindProfiles env user =
     (if CurrentOS env \<noteq> Darwin then ([], None)
      else
        (let historyPath = Join env [HomeDir user, ''Library/Safari/History.db'']
         in if IsNotExist (Stat env historyPath) then ([], None)
            else ([\<lparr>ProfileName = ''Default'',
                    Path = Join env [HomeDir user, ''Library/Safari'']\<rparr>], None)))"

subsection \<open>Chromium timestamps and history\<close>

text \<open>The two conversions of \<open>ChromiumBrowser.GetHistory\<close>: from the Unix-millisecond
  watermark to microseconds since 1601 for the query, and from a row's microseconds to
  Unix milliseconds.\<close>

definition chromiumTimestamp :: "int \<Rightarrow> int" where
  "chromiumTimestamp sinceTimestamp =
     (if sinceTimestamp > 0
      then wrap64 (wrap64 (sinceTimestamp * 1000) + 11644473600 * 1000000)
      else 0)"

definition unixMs :: "int \<Rightarrow> int" where
  "unixMs lastVisitTime = quot (wrap64 (lastVisitTime - 11644473600 * 1000000)) 1000"

text \<open>The query: the rows with \<open>last_visit_time > ?\<close>, ordered by \<open>last_visit_time\<close>; the
  result is the rows the iteration delivers and \<open>rows.Err()\<close>.\<close>

definition Query_urls :: "history_db \<Rightarrow> int \<Rightarrow> db_error + (url_row list \<times> db_error option)" where
  "Query_urls database since =
     (if query_fails database then Inl QueryFailed
      else
        (let selected = sort_key last_visit_time
               (filter (\<lambda>r. last_visit_time r > since) (urls database))
         in case rows_break database of
              None \<Rightarrow> Inr (selected, None)
            | Some n \<Rightarrow>
                if n < length selected then Inr (take n selected, Some RowsFailed)
                else Inr (selected, None)))"

fun scan_rows :: "url_row list \<Rightarrow> VisitedSite list \<Rightarrow> VisitedSite list" where
  "scan_rows [] sites = sites"
| "scan_rows (r # rest) sites =
     (case row_url r of
        None \<Rightarrow> scan_rows rest sites
      | Some url \<Rightarrow>
          scan_rows rest (sites @ [\<lparr>URL = url, Timestamp = unixMs (last_visit_time r)\<rparr>]))"

text \<open>\<open>GetHistory\<close> returns (sites, err).\<close>

definition ChromiumGetHistory :: "os_env \<Rightarrow> Profile \<Rightarrow> int \<Rightarrow>
    VisitedSite list \<times> db_error option" where
  "ChromiumGetHistory env profile sinceTimestamp =
     (let historyPath = Join env [Path profile, ''History'']
      in case db_Open env historyPath of
           None \<Rightarrow> ([], Some OpenFailed)
         | Some database \<Rightarrow>
             (case Query_urls database (chromiumTimestamp sinceTimestamp) of
                Inl err \<Rightarrow> ([], Some err)
              | Inr (rows, rowsErr) \<Rightarrow> (scan_rows rows [], rowsErr)))"

subsection \<open>Firefox and Safari history\<close>

text \<open>The rows a query has selected reach the loop until the iteration breaks off.\<close>

definition delivered :: "history_db \<Rightarrow> 'r list \<Rightarrow> 'r list \<times> db_error option" where
  "delivered database selected =
     (case rows_break database of
        None \<Rightarrow> (selected, None)
      | Some n \<Rightarrow>
          if n < length selected then (take n selected, Some RowsFailed)
          else (selected, None))"

text \<open>Firefox keeps microseconds since the Unix epoch.\<close>

definition firefoxTimestamp :: "int \<Rightarrow> int" where
  "firefoxTimestamp sinceTimestamp = wrap64 (sinceTimestamp * 1000)"

definition firefoxUnixMs :: "int \<Rightarrow> int" where
  "firefoxUnixMs lastVisitDate = quot lastVisitDate 1000"

text \<open>The query of Firefox: the rows whose \<open>last_visit_date\<close> is not NULL and greater than
  the bound, ordered by \<open>last_visit_date\<close>, as pairs of \<open>url\<close> and \<open>last_visit_date\<close>.\<close>

definition Query_places :: "history_db \<Rightarrow> int \<Rightarrow>
    db_error + ((string option \<times> int) list \<times> db_error option)" where
  "Query_places database since =
     (if query_fails database then Inl QueryFailed
      else Inr (delivered database
             (sort_key snd
                (concat (map (\<lambda>r. case last_visit_date r of
                                     None \<Rightarrow> []
                                   | Some d \<Rightarrow> if d > since then [(place_url r, d)] else [])
                           (moz_places database))))))"

fun scan_places :: "(string option \<times> int) list \<Rightarrow> VisitedSite list \<Rightarrow> VisitedSite list" where
  "scan_places [] sites = sites"
| "scan_places ((None, lastVisitDate) # rest) sites = scan_places rest sites"
| "scan_places ((Some url, lastVisitDate) # rest) sites =
     scan_places rest (sites @ [\<lparr>URL = url, Timestamp = firefoxUnixMs lastVisitDate\<rparr>])"

definition FirefoxGetHistory :: "os_env \<Rightarrow> Profile \<Rightarrow> int \<Rightarrow>
    VisitedSite list \<times> db_error option" where
  "FirefoxGetHistory env profile sinceTimestamp =
     (let placesPath = Join env [Path profile, ''places.sqlite'']
      in case db_Open env placesPath of
           None \<Rightarrow> ([], Some OpenFailed)
         | Some database \<Rightarrow>
             (case Query_places database (firefoxTimestamp sinceTimestamp) of
                Inl err \<Rightarrow> ([], Some err)
              | Inr (rows, rowsErr) \<Rightarrow> (scan_places rows [], rowsErr)))"

text \<open>Safari keeps seconds since 2001 as a float. The two conversions of
  \<open>SafariBrowser.GetHistory\<close>, each operation rounded to \<open>float64\<close>.\<close>

definition safariTimestamp :: "int \<Rightarrow> rat" where
  "safariTimestamp sinceTimestamp =
     (if sinceTimestamp > 0
      then float64 (float64 (float64 (of_int sinceTimestamp) / 1000) - 978307200)
      else 0)"

definition safariUnixMs :: "rat \<Rightarrow> int" where
  "safariUnixMs visitTime = int64_of_float64 (float64 (float64 (visitTime + 978307200) * 1000))"

text \<open>The query of Safari: the visits joined with their items, with \<open>visit_time\<close> greater
  than the bound, ordered by \<open>visit_time\<close>, as pairs of \<open>url\<close> and \<open>visit_time\<close>.\<close>

definition Query_visits :: "history_db \<Rightarrow> rat \<Rightarrow>
    db_error + ((string option \<times> rat) list \<times> db_error option)" where
  "Query_visits database since =
     (if query_fails database then Inl QueryFailed
      else Inr (delivered database
             (sort_key snd
                (concat (map (\<lambda>hv.
                     concat (map (\<lambda>hi.
                        if history_item hv = item_id hi \<and> visit_time hv > since
                        then [(item_url hi, visit_time hv)] else [])
                       (history_items database)))
                   (history_visits database))))))"

fun scan_visits :: "(string option \<times> rat) list \<Rightarrow> VisitedSite list \<Rightarrow> VisitedSite list" where
  "scan_visits [] sites = sites"
| "scan_visits ((None, visitTime) # rest) sites = scan_visits rest sites"
| "scan_visits ((Some url, visitTime) # rest) sites =
     scan_visits rest (sites @ [\<lparr>URL = url, Timestamp = safariUnixMs visitTime\<rparr>])"

definition SafariGetHistory :: "os_env \<Rightarrow> Profile \<Rightarrow> int \<Rightarrow>
    VisitedSite list \<times> db_error option" where
  "SafariGetHistory env profile sinceTimestamp =
     (let historyPath = Join env [Path profile, ''History.db'']
      in case db_Open env historyPath of
           None \<Rightarrow> ([], Some OpenFailed)
         | Some database \<Rightarrow>
             (case Query_visits database (safariTimestamp sinceTimestamp) of
                Inl err \<Rightarrow> ([], Some err)
              | Inr (rows, rowsErr) \<Rightarrow> (scan_visits rows [], rowsErr)))"

section \<open>Watermark store (package state)\<close>

definition makeKey :: "string \<Rightarrow> string \<Rightarrow> string \<Rightarrow> string" where
  "makeKey username browserName profileName =
     username @ ''/'' @ browserName @ ''/'' @ profileName"

definition GetLastTimestamp :: "(string \<rightharpoonup> int) \<Rightarrow> string \<Rightarrow> string \<Rightarrow> string \<Rightarrow> int" where
  "GetLastTimestamp data username browserName profileName =
     (case data (makeKey username browserName profileName) of None \<Rightarrow> 0 | Some t \<Rightarrow> t)"

definition SetLastTimestamp :: "(string \<rightharpoonup> int) \<Rightarrow> string \<Rightarrow> string \<Rightarrow> string \<Rightarrow> int \<Rightarrow>
    (string \<rightharpoonup> int)" where
  "SetLastTimestamp data username browserName profileName timestamp =
     data(makeKey username browserName profileName \<mapsto> timestamp)"

section \<open>Orchestrator (package scanner)\<close>

datatype ExitCode = ExitSuccess | ExitPartialFailure | ExitCompleteFailure

fun exit_status :: "ExitCode \<Rightarrow> nat" where
  "exit_status ExitSuccess = 0"
| "exit_status ExitPartialFailure = 1"
| "exit_status ExitCompleteFailure = 2"

text \<open>The \<open>Browser\<close> interface.\<close>

record Browser =
  BrowserName :: string
  FindProfiles :: "User \<Rightarrow> Profile list \<times> os_error option"
  GetHistory :: "Profile \<Rightarrow> int \<Rightarrow> VisitedSite list \<times> db_error option"

text \<open>A Chromium-based browser as a \<open>Browser\<close>.\<close>

definition chromium :: "os_env \<Rightarrow> ChromiumBrowser \<Rightarrow> Browser" where
  "chromium env c =
     \<lparr>BrowserName = name c, FindProfiles = ChromiumFindProfiles env c,
      GetHistory = ChromiumGetHistory env\<rparr>"

datatype scan_error = GetHistoryFailed db_error | SendFailed send_error

datatype run_error =
  UserEnumerationFailed os_error
  | ProfileFailed string string string scan_error

record ScanResult =
  UsersScanned :: nat
  ProfilesScanned :: nat
  EntriesSent :: nat
  Errors :: "run_error list"
  ExitCode :: ExitCode

text \<open>The scanner: the configured source label, the client and the dry-run flag. The logger
  writes to a log only and is left out.\<close>

record Scanner =
  cfgSource :: string
  client :: Client
  dryRun :: bool

text \<open>What a run reads from outside: the transport, the value of
  \<open>time.Now().AddDate(0, 0, -cfg.InitialDays).UnixMilli()\<close>, the result of \<open>getLocalIP()\<close>,
  of \<open>platform.GetAllUsers()\<close> and of \<open>browser.All()\<close>.\<close>

record run_env =
  network :: transport
  initialSince :: int
  localIP :: string
  GetAllUsers :: "User list \<times> os_error option"
  All :: "Browser list"

text \<open>What a run changes: the map of the state manager and the requests sent.\<close>

record run_state =
  data :: "string \<rightharpoonup> int"
  requests :: "request list"

text \<open>The watermark \<open>scanProfile\<close> reads with: the stored one, or the look-back horizon
  when nothing is stored.\<close>

definition lastTimestamp :: "run_env \<Rightarrow> run_state \<Rightarrow> User \<Rightarrow> Browser \<Rightarrow> Profile \<Rightarrow> int" where
  "lastTimestamp env st user b profile =
     (let stored =
            GetLastTimestamp (data st) (Username user) (BrowserName b) (ProfileName profile)
      in if stored = 0 then initialSince env else stored)"

text \<open>\<open>scanProfile\<close> returns (sent, err) and the new state. In a dry run the payload goes to
  standard output, which is not modelled.\<close>

definition scanProfile :: "Scanner \<Rightarrow> run_env \<Rightarrow> run_state \<Rightarrow> User \<Rightarrow> Browser \<Rightarrow> Profile \<Rightarrow>
    (nat \<times> scan_error option) \<times> run_state" where
  "scanProfile s env st user b profile =
     (case GetHistory b profile (lastTimestamp env st user b profile) of
           (entries, Some err) \<Rightarrow> ((0, Some (GetHistoryFailed err)), st)
         | (entries, None) \<Rightarrow>
             if length entries = 0 then ((0, None), st)
             else
               (let principal =
                      (if Username user = [] then NewIPPrincipal (localIP env)
                       else NewUserPrincipal (Username user));
                    payload = \<lparr>Principal = principal, VisitedSites = entries,
                               Source = cfgSource s\<rparr>
                in if dryRun s then ((length entries, None), st)
                   else
                     (case Send (client s) (network env) (requests st) payload of
                        (result, maxTimestamp, Some err, wire1) \<Rightarrow>
                          ((0, Some (SendFailed err)), st\<lparr>requests := wire1\<rparr>)
                      | (result, maxTimestamp, None, wire1) \<Rightarrow>
                          ((TotalSent result, None),
                           (if maxTimestamp > 0
                            then st\<lparr>data := SetLastTimestamp (data st) (Username user)
                                      (BrowserName b) (ProfileName profile) maxTimestamp,
                                    requests := wire1\<rparr>
                            else st\<lparr>requests := wire1\<rparr>)))))"

text \<open>The three nested loops of \<open>Run\<close>, over the profiles of a browser, the browsers and the
  users; they carry the result, \<open>successCount\<close>, \<open>failureCount\<close> and the state.\<close>

fun profiles_loop :: "Scanner \<Rightarrow> run_env \<Rightarrow> User \<Rightarrow> Browser \<Rightarrow> Profile list \<Rightarrow>
    ScanResult \<times> nat \<times> nat \<times> run_state \<Rightarrow> ScanResult \<times> nat \<times> nat \<times> run_state" where
  "profiles_loop s env user b [] acc = acc"
| "profiles_loop s env user b (profile # rest) (result, successCount, failureCount, st) =
     (let result1 = result\<lparr>ProfilesScanned := ProfilesScanned result + 1\<rparr>
      in case scanProfile s env st user b profile of
           ((sent, Some err), st1) \<Rightarrow>
             profiles_loop s env user b rest
               (result1\<lparr>Errors := Errors result1 @
                   [ProfileFailed (Username user) (BrowserName b) (ProfileName profile) err]\<rparr>,
                successCount, failureCount + 1, st1)
         | ((sent, None), st1) \<Rightarrow>
             profiles_loop s env user b rest
               (result1\<lparr>EntriesSent := EntriesSent result1 + sent\<rparr>,
                (if sent > 0 then successCount + 1 else successCount), failureCount, st1))"

fun browsers_loop :: "Scanner \<Rightarrow> run_env \<Rightarrow> User \<Rightarrow> Browser list \<Rightarrow>
    ScanResult \<times> nat \<times> nat \<times> run_state \<Rightarrow> ScanResult \<times> nat \<times> nat \<times> run_state" where
  "browsers_loop s env user [] acc = acc"
| "browsers_loop s env user (b # rest) acc =
     (case FindProfiles b user of
        (profiles, Some err) \<Rightarrow> browsers_loop s env user rest acc
      | (profiles, None) \<Rightarrow>
          if length profiles = 0 then browsers_loop s env user rest acc
          else browsers_loop s env user rest (profiles_loop s env user b profiles acc))"

fun users_loop :: "Scanner \<Rightarrow> run_env \<Rightarrow> User list \<Rightarrow>
    ScanResult \<times> nat \<times> nat \<times> run_state \<Rightarrow> ScanResult \<times> nat \<times> nat \<times> run_state" where
  "users_loop s env [] acc = acc"
| "users_loop s env (user # rest) (result, successCount, failureCount, st) =
     users_loop s env rest
       (browsers_loop s env user (All env)
          (result\<lparr>UsersScanned := UsersScanned result + 1\<rparr>, successCount, failureCount, st))"

definition empty_scan :: ScanResult where
  "empty_scan = \<lparr>UsersScanned = 0, ProfilesScanned = 0, EntriesSent = 0, Errors = [],
                  ExitCode = ExitSuccess\<rparr>"

text \<open>\<open>Run\<close> returns the result and the new state. Saving the state file at the end changes
  neither.\<close>

definition Run :: "Scanner \<Rightarrow> run_env \<Rightarrow> run_state \<Rightarrow> ScanResult \<times> run_state" where
  "Run s env st =
     (case GetAllUsers env of
        (users, Some err) \<Rightarrow>
          (empty_scan\<lparr>Errors := Errors empty_scan @ [UserEnumerationFailed err],
                       ExitCode := ExitCompleteFailure\<rparr>, st)
      | (users, None) \<Rightarrow>
          if length users = 0 then (empty_scan\<lparr>ExitCode := ExitCompleteFailure\<rparr>, st)
          else
            (case users_loop s env users (empty_scan, 0, 0, st) of
               (result, successCount, failureCount, st1) \<Rightarrow>
                 (if successCount = 0 \<and> failureCount > 0
                  then result\<lparr>ExitCode := ExitCompleteFailure\<rparr>
                  else if failureCount > 0 then result\<lparr>ExitCode := ExitPartialFailure\<rparr>
                  else result\<lparr>ExitCode := ExitSuccess\<rparr>, st1)))"

section \<open>Example inputs\<close>

text \<open>A client with a small ceiling, a batch of two records, and a transport whose answer
  to the n-th request of a run is given by a table.\<close>

definition example_client :: Client where
  "example_client = \<lparr>serverURL = ''https://collector.example/api'', apiKey = ''key'',
                       maxChunkSize = 50, compress = False\<rparr>"

definition example_payload :: VisitedSitesDTO where
  "example_payload =
     \<lparr>Principal = NewUserPrincipal ''alice'',
      VisitedSites = [\<lparr>URL = ''a'', Timestamp = 1\<rparr>, \<lparr>URL = ''b'', Timestamp = 2\<rparr>],
      Source = ''hist_scanner''\<rparr>"

definition example_transport :: "(nat \<Rightarrow> response) \<Rightarrow> transport" where
  "example_transport replies =
     \<lparr>json_marshal = (\<lambda>p. concat (map URL (VisitedSites p))),
      gzip_compress = (\<lambda>d. d),
      new_request_ok = (\<lambda>u. True),
      round_trip = (\<lambda>wire req. replies (length wire))\<rparr>"

text \<open>A client as \<open>NewClient\<close> builds it, with a ceiling of one kilobyte, and a batch of
  two records with addresses of 600 bytes.\<close>

definition kilobyte_client :: Client where
  "kilobyte_client = NewClient ''https://collector.example/api'' ''key'' 1 False"

definition long_payload :: VisitedSitesDTO where
  "long_payload =
     \<lparr>Principal = NewUserPrincipal ''alice'',
      VisitedSites = [\<lparr>URL = replicate 600 CHR ''a'', Timestamp = 1\<rparr>,
                      \<lparr>URL = replicate 600 CHR ''b'', Timestamp = 2\<rparr>],
      Source = ''hist_scanner''\<rparr>"

text \<open>Tables of answers: the first request fails, the second fails, all fail, all fail with
  two different statuses, the first is refused with status 415.\<close>

definition first_fails :: "nat \<Rightarrow> response" where
  "first_fails n = (if n = 0 then Status 500 else Status 200)"

definition second_fails :: "nat \<Rightarrow> response" where
  "second_fails n = (if n = 1 then Status 500 else Status 200)"

definition all_fail :: "nat \<Rightarrow> response" where
  "all_fail n = Status 500"

definition fail_500_then_503 :: "nat \<Rightarrow> response" where
  "fail_500_then_503 n = (if n = 0 then Status 500 else Status 503)"

definition unsupported_then_ok :: "nat \<Rightarrow> response" where
  "unsupported_then_ok n = (if n = 0 then Status 415 else Status 200)"

text \<open>A user with one browser of one profile, whose history is the two records above.\<close>

definition example_user :: User where
  "example_user = \<lparr>Username = ''alice'', HomeDir = ''/Users/alice'', UID = ''501''\<rparr>"

definition example_profile :: Profile where
  "example_profile =
     \<lparr>ProfileName = ''Default'',
      Path = ''/Users/alice/Library/Application Support/Google/Chrome/Default''\<rparr>"

definition example_browser :: Browser where
  "example_browser =
     \<lparr>BrowserName = ''chrome'',
      FindProfiles = (\<lambda>user. ([example_profile], None)),
      GetHistory = (\<lambda>profile since. (VisitedSites example_payload, None))\<rparr>"

definition example_scanner :: Scanner where
  "example_scanner = \<lparr>cfgSource = ''hist_scanner'', client = example_client, dryRun = False\<rparr>"

definition example_env :: "(nat \<Rightarrow> response) \<Rightarrow> run_env" where
  "example_env replies =
     \<lparr>network = example_transport replies, initialSince = 0, localIP = ''10.0.0.7'',
      GetAllUsers = ([example_user], None), All = [example_browser]\<rparr>"

definition example_state :: run_state where
  "example_state = \<lparr>data = Map.empty, requests = []\<rparr>"

text \<open>A macOS file system on which every \<open>os.Stat\<close> is refused, a browser without profiles,
  and a file system whose history database has rows for each of the three kinds of
  browser.\<close>

definition denied_os :: os_env where
  "denied_os =
     \<lparr>CurrentOS = Darwin, Stat = (\<lambda>path. Some ErrPermission),
      ReadDir = (\<lambda>path. ([], Some ErrPermission)), Getenv = (\<lambda>var. []),
      db_Open = (\<lambda>path. None)\<rparr>"

definition example_opera :: ChromiumBrowser where
  "example_opera =
     \<lparr>name = ''opera'',
      paths = \<lparr>LinuxPath = ''.config/opera'',
               DarwinPath = ''Library/Application Support/com.operasoftware.Opera'',
               WindowsPath = ''Opera Software'' @ [CHR 0x5C] @ ''Opera Stable'',
               WindowsAppData = True\<rparr>,
      hasProfiles = False\<rparr>"


section \<open>Properties of the chunking\<close>


lemma entrySize_pos: "0 < entrySize s"
  by (simp add: entrySize_def)

lemma compressed_estimate_add:
  "0 \<le> e \<Longrightarrow> compressed_estimate (s + e) \<le> compressed_estimate s + e"
proof -
  assume e: "0 \<le> e"
  have "(s + e) * 3 div 10 \<le> (s * 3 + e * 10) div 10"
    by (rule zdiv_mono1) (use e in simp_all)
  also have "\<dots> = s * 3 div 10 + e" by simp
  finally show ?thesis by (simp add: compressed_estimate_def)
qed

lemma buildChunks_loop_seal:
  "must_seal c cur sz site \<Longrightarrow>
   buildChunks_loop c p (site # rest) chunks cur sz =
   buildChunks_loop c p rest (chunks @ [seal p cur]) [site] (entrySize site)"
  by (simp add: must_seal_def)

lemma buildChunks_loop_keep:
  "\<not> must_seal c cur sz site \<Longrightarrow>
   buildChunks_loop c p (site # rest) chunks cur sz =
   buildChunks_loop c p rest chunks (cur @ [site]) (sz + entrySize site)"
  by (auto simp add: must_seal_def)


lemma buildChunks_loop_concat:
  "buildChunks_loop c p sites chunks cur sz = (chunks', cur', sz') \<Longrightarrow>
   concat (map VisitedSites chunks') @ cur' = concat (map VisitedSites chunks) @ cur @ sites"
proof (induction sites arbitrary: chunks cur sz)
  case Nil
  then show ?case by simp
next
  case (Cons site rest)
  then show ?case
    by (simp add: Let_def seal_def split: if_splits)
qed

lemma buildChunks_loop_meta:
  "buildChunks_loop c p sites chunks cur sz = (chunks', cur', sz') \<Longrightarrow>
   \<forall>ch \<in> set chunks. Principal ch = Principal p \<and> Source ch = Source p \<Longrightarrow>
   \<forall>ch \<in> set chunks'. Principal ch = Principal p \<and> Source ch = Source p"
proof (induction sites arbitrary: chunks cur sz)
  case Nil
  then show ?case by simp
next
  case (Cons site rest)
  show ?case
  proof (cases "must_seal c cur sz site")
    case True
    from Cons.prems(1) have "buildChunks_loop c p rest (chunks @ [seal p cur]) [site] (entrySize site) = (chunks', cur', sz')"
      unfolding buildChunks_loop_seal [OF True] .
    moreover have "\<forall>ch \<in> set (chunks @ [seal p cur]). Principal ch = Principal p \<and> Source ch = Source p"
      using Cons.prems(2) by (simp add: seal_def)
    ultimately show ?thesis by (rule Cons.IH)
  next
    case False
    from Cons.prems(1) have "buildChunks_loop c p rest chunks (cur @ [site]) (sz + entrySize site) = (chunks', cur', sz')"
      unfolding buildChunks_loop_keep [OF False] .
    then show ?thesis using Cons.prems(2) by (rule Cons.IH)
  qed
qed

lemma buildChunks_loop_nonempty:
  "buildChunks_loop c p sites chunks cur sz = (chunks', cur', sz') \<Longrightarrow>
   \<forall>ch \<in> set chunks. VisitedSites ch \<noteq> [] \<Longrightarrow>
   \<forall>ch \<in> set chunks'. VisitedSites ch \<noteq> []"
proof (induction sites arbitrary: chunks cur sz)
  case Nil
  then show ?case by simp
next
  case (Cons site rest)
  show ?case
  proof (cases "must_seal c cur sz site")
    case True
    from Cons.prems(1) have "buildChunks_loop c p rest (chunks @ [seal p cur]) [site] (entrySize site) = (chunks', cur', sz')"
      unfolding buildChunks_loop_seal [OF True] .
    moreover have "\<forall>ch \<in> set (chunks @ [seal p cur]). VisitedSites ch \<noteq> []"
      using Cons.prems(2) True by (auto simp add: seal_def must_seal_def)
    ultimately show ?thesis by (rule Cons.IH)
  next
    case False
    from Cons.prems(1) have "buildChunks_loop c p rest chunks (cur @ [site]) (sz + entrySize site) = (chunks', cur', sz')"
      unfolding buildChunks_loop_keep [OF False] .
    then show ?thesis using Cons.prems(2) by (rule Cons.IH)
  qed
qed

lemma buildChunks_loop_ceiling:
  "buildChunks_loop c p sites chunks cur sz = (chunks', cur', sz') \<Longrightarrow>
   sz = sum_list (map entrySize cur) \<Longrightarrow>
   list_all (\<lambda>ch. within_ceiling c (VisitedSites ch)) chunks \<Longrightarrow>
   cur = [] \<or> within_ceiling c cur \<Longrightarrow>
   list_all (\<lambda>ch. within_ceiling c (VisitedSites ch)) chunks' \<and> (cur' = [] \<or> within_ceiling c cur')"
proof (induction sites arbitrary: chunks cur sz)
  case Nil
  then show ?case by simp
next
  case (Cons site rest)
  let ?est = "if compress c then compressed_estimate sz else sz"
  show ?case
  proof (cases "must_seal c cur sz site")
    case True
    from Cons.prems(1) have run: "buildChunks_loop c p rest (chunks @ [seal p cur]) [site] (entrySize site) = (chunks', cur', sz')"
      unfolding buildChunks_loop_seal [OF True] .
    have a: "entrySize site = sum_list (map entrySize [site])" by simp
    have b: "list_all (\<lambda>ch. within_ceiling c (VisitedSites ch)) (chunks @ [seal p cur])"
      using Cons.prems(3,4) True by (auto simp add: seal_def must_seal_def)
    have d: "[site] = [] \<or> within_ceiling c [site]" by (simp add: within_ceiling_def)
    show ?thesis by (rule Cons.IH [OF run a b d])
  next
    case False
    from Cons.prems(1) have run: "buildChunks_loop c p rest chunks (cur @ [site]) (sz + entrySize site) = (chunks', cur', sz')"
      unfolding buildChunks_loop_keep [OF False] .
    have a: "sz + entrySize site = sum_list (map entrySize (cur @ [site]))"
      using Cons.prems(2) by simp
    have d: "within_ceiling c (cur @ [site])"
    proof (cases "cur = []")
      case True
      then show ?thesis by (simp add: within_ceiling_def)
    next
      case ne: False
      with False have le: "?est + entrySize site \<le> maxChunkSize c" by (simp add: must_seal_def)
      have "chunk_estimate c (cur @ [site]) \<le> ?est + entrySize site"
        using Cons.prems(2) compressed_estimate_add [of "entrySize site" sz] entrySize_pos [of site]
        by (simp add: chunk_estimate_def)
      with le show ?thesis by (simp add: within_ceiling_def)
    qed
    then have d': "cur @ [site] = [] \<or> within_ceiling c (cur @ [site])" by simp
    show ?thesis by (rule Cons.IH [OF run a Cons.prems(3) d'])
  qed
qed

lemma buildChunks_concat: "concat (map VisitedSites (buildChunks c p)) = VisitedSites p"
proof -
  obtain chunks cur sz where run: "buildChunks_loop c p (VisitedSites p) [] [] 0 = (chunks, cur, sz)"
    by (metis prod_cases3)
  from buildChunks_loop_concat [OF run]
  have "concat (map VisitedSites chunks) @ cur = VisitedSites p" by simp
  then show ?thesis by (auto simp add: buildChunks_def run seal_def)
qed

lemma buildChunks_meta:
  "ch \<in> set (buildChunks c p) \<Longrightarrow> Principal ch = Principal p \<and> Source ch = Source p"
proof -
  assume mem: "ch \<in> set (buildChunks c p)"
  obtain chunks cur sz where run: "buildChunks_loop c p (VisitedSites p) [] [] 0 = (chunks, cur, sz)"
    by (metis prod_cases3)
  have "\<forall>ch \<in> set chunks. Principal ch = Principal p \<and> Source ch = Source p"
    by (rule buildChunks_loop_meta [OF run]) simp
  with mem show ?thesis by (auto simp add: buildChunks_def run seal_def split: if_splits)
qed

lemma buildChunks_nonempty:
  "ch \<in> set (buildChunks c p) \<Longrightarrow> VisitedSites ch \<noteq> []"
proof -
  assume mem: "ch \<in> set (buildChunks c p)"
  obtain chunks cur sz where run: "buildChunks_loop c p (VisitedSites p) [] [] 0 = (chunks, cur, sz)"
    by (metis prod_cases3)
  have "\<forall>ch \<in> set chunks. VisitedSites ch \<noteq> []"
    by (rule buildChunks_loop_nonempty [OF run]) simp
  with mem show ?thesis by (auto simp add: buildChunks_def run seal_def split: if_splits)
qed

lemma buildChunks_ceiling:
  "list_all (\<lambda>ch. within_ceiling c (VisitedSites ch)) (buildChunks c p)"
proof -
  obtain chunks cur sz where run: "buildChunks_loop c p (VisitedSites p) [] [] 0 = (chunks, cur, sz)"
    by (metis prod_cases3)
  have "list_all (\<lambda>ch. within_ceiling c (VisitedSites ch)) chunks \<and> (cur = [] \<or> within_ceiling c cur)"
    by (rule buildChunks_loop_ceiling [OF run]) simp_all
  then show ?thesis by (auto simp add: buildChunks_def run seal_def)
qed

lemma Send_loop_counts:
  "Send_loop c env chunks r m w = (r', m', w') \<Longrightarrow>
   TotalSent r' + FailedCount r' =
   TotalSent r + FailedCount r + length (concat (map VisitedSites chunks))"
proof (induction chunks arbitrary: r m w)
  case Nil
  then show ?case by simp
next
  case (Cons chunk rest)
  obtain bs bo e w1 where sc: "sendChunk c env w chunk = ((bs, bo, e), w1)"
    by (metis prod_cases3 surj_pair)
  show ?case
  proof (cases e)
    case None
    with Cons.prems sc have "Send_loop c env rest
            (r\<lparr>TotalSent := TotalSent r + length (VisitedSites chunk),
                    ChunksSent := ChunksSent r + 1,
                    BytesSent := BytesSent r + bs,
                    BytesOriginal := BytesOriginal r + bo\<rparr>)
            (max_timestamp_loop (VisitedSites chunk) m) w1 = (r', m', w')" by simp
    from Cons.IH [OF this] show ?thesis by simp
  next
    case (Some err)
    with Cons.prems sc have "Send_loop c env rest
            (r\<lparr>LastError := Some err,
                    FailedCount := FailedCount r + length (VisitedSites chunk)\<rparr>)
            m w1 = (r', m', w')" by simp
    from Cons.IH [OF this] show ?thesis by simp
  qed
qed

lemma Send_counts:
  "Send c env wire p = (result, maxTimestamp, err, wire') \<Longrightarrow>
   TotalSent result + FailedCount result = length (VisitedSites p)"
proof -
  assume s: "Send c env wire p = (result, maxTimestamp, err, wire')"
  show ?thesis
  proof (cases "VisitedSites p = []")
    case True
    with s show ?thesis by (auto simp add: Send_def empty_result_def)
  next
    case False
    obtain r m w1 where run: "Send_loop c env (buildChunks c p) empty_result 0 wire = (r, m, w1)"
      by (metis prod_cases3)
    from s False run have "result = r" by (simp add: Send_def split: if_splits)
    with Send_loop_counts [OF run] show ?thesis
      by (simp add: buildChunks_concat empty_result_def)
  qed
qed

text \<open>Claim C10: the chunks of a batch, concatenated in the order they are emitted, are
  the records of the batch; every chunk carries the principal and the source of the batch;
  and \<open>TotalSent\<close> plus \<open>FailedCount\<close> of the result of \<open>Send\<close> is the number of records
  of the batch.\<close>

theorem buildChunks_partitions_batch:
  "concat (map VisitedSites (buildChunks c p)) = VisitedSites p \<and>
   (\<forall>ch \<in> set (buildChunks c p). Principal ch = Principal p \<and> Source ch = Source p) \<and>
   (case Send c env wire p of
      (result, maxTimestamp, err, wire') \<Rightarrow>
        TotalSent result + FailedCount result = length (VisitedSites p))"
  using Send_counts [of c env wire p]
  by (auto simp add: buildChunks_concat buildChunks_meta)

theorem buildChunks_partitions_batch_witness:
  "buildChunks example_client example_payload =
     [\<lparr>Principal = NewUserPrincipal ''alice'', VisitedSites = [\<lparr>URL = ''a'', Timestamp = 1\<rparr>],
       Source = ''hist_scanner''\<rparr>,
      \<lparr>Principal = NewUserPrincipal ''alice'', VisitedSites = [\<lparr>URL = ''b'', Timestamp = 2\<rparr>],
       Source = ''hist_scanner''\<rparr>] \<and>
   concat (map VisitedSites (buildChunks example_client example_payload)) =
     VisitedSites example_payload \<and>
   map Principal (buildChunks example_client example_payload) =
     [Principal example_payload, Principal example_payload] \<and>
   TotalSent (fst (Send example_client
       (example_transport first_fails) [] example_payload)) = 1 \<and>
   FailedCount (fst (Send example_client
       (example_transport first_fails) [] example_payload)) = 1"
  using buildChunks_partitions_batch [of example_client example_payload
      "example_transport first_fails" "[]"]
  by (simp add: example_client_def example_payload_def example_transport_def buildChunks_def
      seal_def entrySize_def Send_def sendChunk_def sendRaw_def do_request_def empty_result_def
      first_fails_def)

text \<open>Claim C4: the loop seals the current chunk exactly when it is not empty and the
  running estimate (times the compression ratio when compression is on) plus the size of the
  next record exceeds the ceiling; so the estimate of every emitted chunk is at most the
  ceiling, unless the chunk is a single record.\<close>

theorem buildChunks_ceiling_rule:
  "buildChunks_loop c p (site # rest) chunks currentSites currentSize =
     (if must_seal c currentSites currentSize site
      then buildChunks_loop c p rest (chunks @ [seal p currentSites]) [site] (entrySize site)
      else buildChunks_loop c p rest chunks (currentSites @ [site])
             (currentSize + entrySize site)) \<and>
   (\<forall>ch \<in> set (buildChunks c p).
      chunk_estimate c (VisitedSites ch) \<le> maxChunkSize c \<or> length (VisitedSites ch) = 1)"
proof
  show "buildChunks_loop c p (site # rest) chunks currentSites currentSize =
     (if must_seal c currentSites currentSize site
      then buildChunks_loop c p rest (chunks @ [seal p currentSites]) [site] (entrySize site)
      else buildChunks_loop c p rest chunks (currentSites @ [site])
             (currentSize + entrySize site))"
    by (simp add: buildChunks_loop_seal buildChunks_loop_keep del: buildChunks_loop.simps)
  show "\<forall>ch \<in> set (buildChunks c p).
      chunk_estimate c (VisitedSites ch) \<le> maxChunkSize c \<or> length (VisitedSites ch) = 1"
    using buildChunks_ceiling [of c p] by (simp add: list_all_iff within_ceiling_def)
qed

theorem buildChunks_ceiling_rule_witness:
  "map VisitedSites (buildChunks (example_client\<lparr>maxChunkSize := 60, compress := True\<rparr>)
       (example_payload\<lparr>VisitedSites :=
          [\<lparr>URL = ''a'', Timestamp = 1\<rparr>, \<lparr>URL = ''b'', Timestamp = 2\<rparr>,
           \<lparr>URL = ''c'', Timestamp = 3\<rparr>]\<rparr>)) =
     [[\<lparr>URL = ''a'', Timestamp = 1\<rparr>, \<lparr>URL = ''b'', Timestamp = 2\<rparr>],
      [\<lparr>URL = ''c'', Timestamp = 3\<rparr>]] \<and>
   map (\<lambda>ch. chunk_estimate (example_client\<lparr>maxChunkSize := 60, compress := True\<rparr>)
          (VisitedSites ch))
     (buildChunks (example_client\<lparr>maxChunkSize := 60, compress := True\<rparr>)
       (example_payload\<lparr>VisitedSites :=
          [\<lparr>URL = ''a'', Timestamp = 1\<rparr>, \<lparr>URL = ''b'', Timestamp = 2\<rparr>,
           \<lparr>URL = ''c'', Timestamp = 3\<rparr>]\<rparr>)) = [24, 12] \<and>
   must_seal (example_client\<lparr>maxChunkSize := 60, compress := True\<rparr>)
     [\<lparr>URL = ''a'', Timestamp = 1\<rparr>, \<lparr>URL = ''b'', Timestamp = 2\<rparr>] 82
     \<lparr>URL = ''c'', Timestamp = 3\<rparr>"
  using buildChunks_ceiling_rule [of "example_client\<lparr>maxChunkSize := 60, compress := True\<rparr>"
      "example_payload\<lparr>VisitedSites :=
          [\<lparr>URL = ''a'', Timestamp = 1\<rparr>, \<lparr>URL = ''b'', Timestamp = 2\<rparr>,
           \<lparr>URL = ''c'', Timestamp = 3\<rparr>]\<rparr>"
      "\<lparr>URL = ''c'', Timestamp = 3\<rparr>" "[]" "[]"
      "[\<lparr>URL = ''a'', Timestamp = 1\<rparr>, \<lparr>URL = ''b'', Timestamp = 2\<rparr>]" 82]
  by (simp add: example_client_def example_payload_def buildChunks_def seal_def entrySize_def
      must_seal_def chunk_estimate_def compressed_estimate_def)

section \<open>Properties of the delivery\<close>

lemma do_request_wire: "snd (do_request env w req n) = w @ [req]"
  by (simp add: do_request_def split: response.splits)

lemma do_request_err:
  "snd (fst (do_request env w req n)) =
     (case round_trip env w req of
        TransportError \<Rightarrow> Some RequestFailed
      | Status statusCode \<Rightarrow>
          if 200 \<le> statusCode \<and> statusCode < 300 then None else Some (HttpError statusCode))"
  by (auto simp add: do_request_def split: response.splits)

lemma do_request_cases:
  "do_request env w req n =
     (case round_trip env w req of
        TransportError \<Rightarrow> ((0, Some RequestFailed), w @ [req])
      | Status statusCode \<Rightarrow>
          if 200 \<le> statusCode \<and> statusCode < 300 then ((n, None), w @ [req])
          else ((0, Some (HttpError statusCode)), w @ [req]))"
  by (auto simp add: do_request_def split: response.splits)

text \<open>Claim C5: with compression on, the chunk is sent compressed first; the uncompressed
  retry happens exactly when that first answer is status 415, it is the one further request,
  and its body is the serialized payload whose compression was the body of the first request.
  After any other answer there is no further request, and the chunk has failed unless the
  answer was a status in 200..299.\<close>

theorem sendChunk_retry_only_on_415:
  assumes "compress c"
  shows "(let d = json_marshal env chunk;
              gz = \<lparr>req_url = serverURL c, content_encoding_gzip = True,
                    authorization = ''ProxyToken '' @ apiKey c, body = gzip_compress env d\<rparr>;
              raw = \<lparr>req_url = serverURL c, content_encoding_gzip = False,
                     authorization = ''ProxyToken '' @ apiKey c, body = d\<rparr>
          in case sendChunk c env w chunk of
               ((bytesSent, bytesOriginal, err), w') \<Rightarrow>
                 if \<not> new_request_ok env (serverURL c)
                 then w' = w \<and> err = Some RequestCreateFailed
                 else if round_trip env w gz = Status 415
                 then w' = w @ [gz, raw] \<and>
                      (err = None) = accepted (round_trip env (w @ [gz]) raw)
                 else w' = w @ [gz] \<and> (err = None) = accepted (round_trip env w gz))"
  using assms
  by (auto simp add: Let_def sendChunk_def sendWithGzip_def sendRaw_def do_request_cases
      accepted_def split: response.splits prod.splits option.splits if_splits)


theorem sendChunk_retry_only_on_415_witness:
  "compress (example_client\<lparr>compress := True\<rparr>) \<and>
   sendChunk (example_client\<lparr>compress := True\<rparr>)
     (example_transport unsupported_then_ok) [] example_payload =
     ((2, 2, None),
      [\<lparr>req_url = ''https://collector.example/api'', content_encoding_gzip = True,
        authorization = ''ProxyToken key'', body = ''ab''\<rparr>,
       \<lparr>req_url = ''https://collector.example/api'', content_encoding_gzip = False,
        authorization = ''ProxyToken key'', body = ''ab''\<rparr>])"
  using sendChunk_retry_only_on_415 [of "example_client\<lparr>compress := True\<rparr>"
      "example_transport unsupported_then_ok" example_payload "[]"]
  by (simp add: example_client_def example_transport_def example_payload_def sendChunk_def
      sendWithGzip_def sendRaw_def do_request_def Let_def unsupported_then_ok_def)

lemma max_timestamp_loop_append:
  "max_timestamp_loop (xs @ ys) m = max_timestamp_loop ys (max_timestamp_loop xs m)"
  by (induction xs arbitrary: m) simp_all

lemma max_timestamp_loop_ge: "m \<le> max_timestamp_loop xs m"
proof (induction xs arbitrary: m)
  case Nil
  show ?case by simp
next
  case (Cons x xs)
  have "m \<le> (if Timestamp x > m then Timestamp x else m)" by simp
  also have "\<dots> \<le> max_timestamp_loop xs (if Timestamp x > m then Timestamp x else m)"
    by (rule Cons.IH)
  finally show ?case by simp
qed

lemma max_timestamp_loop_upper: "s \<in> set xs \<Longrightarrow> Timestamp s \<le> max_timestamp_loop xs m"
proof (induction xs arbitrary: m)
  case Nil
  then show ?case by simp
next
  case (Cons x xs)
  show ?case
  proof (cases "s = x")
    case True
    have "Timestamp x \<le> (if Timestamp x > m then Timestamp x else m)" by simp
    also have "\<dots> \<le> max_timestamp_loop xs (if Timestamp x > m then Timestamp x else m)"
      by (rule max_timestamp_loop_ge)
    finally show ?thesis using True by simp
  next
    case False
    with Cons.prems have "s \<in> set xs" by simp
    from Cons.IH [OF this] show ?thesis by simp
  qed
qed

lemma max_timestamp_loop_mem:
  "max_timestamp_loop xs m = m \<or> (\<exists>s \<in> set xs. Timestamp s = max_timestamp_loop xs m)"
proof (induction xs arbitrary: m)
  case Nil
  show ?case by simp
next
  case (Cons x xs)
  from Cons.IH [of "if Timestamp x > m then Timestamp x else m"]
  show ?case by (auto split: if_splits)
qed

lemma confirmed_sites_Nil: "confirmed_sites c env [] w = []"
  by (simp add: confirmed_sites_def)

lemma confirmed_sites_Cons:
  "sendChunk c env w chunk = ((bs, bo, e), w1) \<Longrightarrow>
   confirmed_sites c env (chunk # rest) w =
     (if e = None then VisitedSites chunk else []) @ confirmed_sites c env rest w1"
  by (simp add: confirmed_sites_def)

lemma Send_loop_confirmed:
  "Send_loop c env chunks r m w = (r', m', w') \<Longrightarrow>
   TotalSent r' = TotalSent r + length (confirmed_sites c env chunks w) \<and>
   m' = max_timestamp_loop (confirmed_sites c env chunks w) m \<and>
   (LastError r' \<noteq> None) = (LastError r \<noteq> None \<or> False \<in> set (chunk_outcomes c env chunks w))"
proof (induction chunks arbitrary: r m w)
  case Nil
  then show ?case by (auto simp add: confirmed_sites_Nil)
next
  case (Cons chunk rest)
  obtain bs bo e w1 where sc: "sendChunk c env w chunk = ((bs, bo, e), w1)"
    by (metis prod_cases3 surj_pair)
  show ?case
  proof (cases e)
    case None
    with Cons.prems sc have "Send_loop c env rest
            (r\<lparr>TotalSent := TotalSent r + length (VisitedSites chunk),
                    ChunksSent := ChunksSent r + 1,
                    BytesSent := BytesSent r + bs,
                    BytesOriginal := BytesOriginal r + bo\<rparr>)
            (max_timestamp_loop (VisitedSites chunk) m) w1 = (r', m', w')" by simp
    from Cons.IH [OF this] show ?thesis
      using None sc by (simp add: confirmed_sites_Cons [OF sc] max_timestamp_loop_append)
  next
    case (Some err)
    with Cons.prems sc have "Send_loop c env rest
            (r\<lparr>LastError := Some err,
                    FailedCount := FailedCount r + length (VisitedSites chunk)\<rparr>)
            m w1 = (r', m', w')" by simp
    from Cons.IH [OF this] show ?thesis
      using Some sc by (simp add: confirmed_sites_Cons [OF sc])
  qed
qed



lemma length_chunk_outcomes: "length (chunk_outcomes c env chunks w) = length chunks"
proof (induction chunks arbitrary: w)
  case Nil
  show ?case by simp
next
  case (Cons chunk rest)
  obtain bs bo e w1 where sc: "sendChunk c env w chunk = ((bs, bo, e), w1)"
    by (metis prod_cases3 surj_pair)
  show ?case by (simp add: sc Cons.IH)
qed

lemma confirmed_sites_empty_iff:
  "\<forall>ch \<in> set chunks. VisitedSites ch \<noteq> [] \<Longrightarrow>
   (confirmed_sites c env chunks w = []) = (True \<notin> set (chunk_outcomes c env chunks w))"
proof (induction chunks arbitrary: w)
  case Nil
  show ?case by (simp add: confirmed_sites_Nil)
next
  case (Cons chunk rest)
  obtain bs bo e w1 where sc: "sendChunk c env w chunk = ((bs, bo, e), w1)"
    by (metis prod_cases3 surj_pair)
  from Cons.prems have ne: "VisitedSites chunk \<noteq> []" and rest: "\<forall>ch \<in> set rest. VisitedSites ch \<noteq> []"
    by simp_all
  from Cons.IH [OF rest, of w1] show ?case
    using ne by (auto simp add: confirmed_sites_Cons [OF sc] sc)
qed

lemma buildChunks_empty: "VisitedSites p = [] \<Longrightarrow> buildChunks c p = []"
  by (simp add: buildChunks_def)

lemma buildChunks_not_empty: "VisitedSites p \<noteq> [] \<Longrightarrow> buildChunks c p \<noteq> []"
  using buildChunks_concat [of c p] by auto

lemma Send_unfold:
  assumes "Send c env w p = (result, mx, err, w')"
  shows "TotalSent result = length (confirmed_sites c env (buildChunks c p) w) \<and>
    mx = max_timestamp_loop (confirmed_sites c env (buildChunks c p) w) 0 \<and>
    err = (if TotalSent result = 0 then LastError result else None) \<and>
    (LastError result \<noteq> None) = (False \<in> set (chunk_outcomes c env (buildChunks c p) w))"
proof (cases "VisitedSites p = []")
  case True
  with assms show ?thesis
    by (auto simp add: Send_def empty_result_def buildChunks_empty confirmed_sites_Nil)
next
  case False
  obtain r m w1 where run: "Send_loop c env (buildChunks c p) empty_result 0 w = (r, m, w1)"
    by (metis prod_cases3)
  note conf = Send_loop_confirmed [OF run]
  from assms False run have res: "result = r"
    and e: "err = (if TotalSent r = 0 \<and> LastError r \<noteq> None then LastError r else None)"
    and m: "mx = (if TotalSent r = 0 \<and> LastError r \<noteq> None then 0 else m)"
    by (auto simp add: Send_def split: if_splits)
  have "mx = max_timestamp_loop (confirmed_sites c env (buildChunks c p) w) 0"
  proof (cases "TotalSent r = 0 \<and> LastError r \<noteq> None")
    case True
    with conf have "confirmed_sites c env (buildChunks c p) w = []"
      by (simp add: empty_result_def)
    with m True show ?thesis by simp
  next
    case False
    with m conf show ?thesis by simp
  qed
  with conf res e show ?thesis by (auto simp add: empty_result_def)
qed

lemma chunk_outcomes_errors:
  "chunk_outcomes c env chunks w = map (\<lambda>err. err = None) (chunk_errors c env chunks w)"
proof (induction chunks arbitrary: w)
  case Nil
  show ?case by simp
next
  case (Cons chunk rest)
  obtain bs bo e w1 where sc: "sendChunk c env w chunk = ((bs, bo, e), w1)"
    by (metis prod_cases3 surj_pair)
  show ?case by (simp add: sc Cons.IH)
qed

lemma last_failure_Cons:
  "last_failure (e # es) = (case last_failure es of None \<Rightarrow> e | Some x \<Rightarrow> Some x)"
proof (cases "rev (filter (\<lambda>err. err \<noteq> None) es)")
  case Nil
  then show ?thesis by (cases e) (simp_all add: last_failure_def)
next
  case (Cons x xs)
  then have "x \<in> set (filter (\<lambda>err. err \<noteq> None) es)"
    by (metis list.set_intros(1) set_rev)
  then have "x \<noteq> None" by simp
  with Cons show ?thesis by (cases e) (auto simp add: last_failure_def)
qed

lemma Send_loop_LastError:
  "Send_loop c env chunks r m w = (r', m', w') \<Longrightarrow>
   LastError r' =
     (case last_failure (chunk_errors c env chunks w) of
        None \<Rightarrow> LastError r | Some err \<Rightarrow> Some err)"
proof (induction chunks arbitrary: r m w)
  case Nil
  then show ?case by (simp add: last_failure_def)
next
  case (Cons chunk rest)
  obtain bs bo e w1 where sc: "sendChunk c env w chunk = ((bs, bo, e), w1)"
    by (metis prod_cases3 surj_pair)
  show ?case
  proof (cases e)
    case None
    with Cons.prems sc have "Send_loop c env rest
            (r\<lparr>TotalSent := TotalSent r + length (VisitedSites chunk),
                    ChunksSent := ChunksSent r + 1,
                    BytesSent := BytesSent r + bs,
                    BytesOriginal := BytesOriginal r + bo\<rparr>)
            (max_timestamp_loop (VisitedSites chunk) m) w1 = (r', m', w')" by simp
    from Cons.IH [OF this] show ?thesis
      using None by (simp add: sc last_failure_Cons split: option.splits)
  next
    case (Some err)
    with Cons.prems sc have "Send_loop c env rest
            (r\<lparr>LastError := Some err,
                    FailedCount := FailedCount r + length (VisitedSites chunk)\<rparr>)
            m w1 = (r', m', w')" by simp
    from Cons.IH [OF this] show ?thesis
      using Some by (simp add: sc last_failure_Cons split: option.splits)
  qed
qed

lemma Send_LastError:
  assumes "Send c env w p = (result, mx, err, w')"
  shows "LastError result = last_failure (chunk_errors c env (buildChunks c p) w)"
proof (cases "VisitedSites p = []")
  case True
  with assms show ?thesis
    by (auto simp add: Send_def empty_result_def buildChunks_empty last_failure_def)
next
  case False
  obtain r m w1 where run: "Send_loop c env (buildChunks c p) empty_result 0 w = (r, m, w1)"
    by (metis prod_cases3)
  from assms False run have res: "result = r"
    by (auto simp add: Send_def split: if_splits)
  from Send_loop_LastError [OF run] res show ?thesis
    by (simp add: empty_result_def split: option.splits)
qed

text \<open>Claim C2, as amended: \<open>Send\<close> always returns its result, and it returns an error
  exactly when the batch is not empty and no chunk was confirmed; the error is then
  \<open>LastError\<close>, the error of the last chunk that failed. When some chunk was confirmed the
  returned error is nil, and the failures show in \<open>LastError\<close> and \<open>FailedCount\<close> only.\<close>

theorem Send_error_only_when_nothing_sent:
  assumes "Send c env w p = (result, maxTimestamp, err, w')"
  shows "err = (if TotalSent result = 0 then LastError result else None) \<and>
    LastError result = last_failure (chunk_errors c env (buildChunks c p) w) \<and>
    (err \<noteq> None) =
      (VisitedSites p \<noteq> [] \<and> True \<notin> set (chunk_outcomes c env (buildChunks c p) w)) \<and>
    (LastError result \<noteq> None) = (False \<in> set (chunk_outcomes c env (buildChunks c p) w)) \<and>
    TotalSent result + FailedCount result = length (VisitedSites p)"
proof -
  note u = Send_unfold [OF assms]
  have ne: "\<forall>ch \<in> set (buildChunks c p). VisitedSites ch \<noteq> []"
    using buildChunks_nonempty by blast
  note em = confirmed_sites_empty_iff [OF ne, of c env w]
  have len: "length (chunk_outcomes c env (buildChunks c p) w) = length (buildChunks c p)"
    by (rule length_chunk_outcomes)
  have "(err \<noteq> None) = (TotalSent result = 0 \<and> LastError result \<noteq> None)"
    using u by auto
  also have "\<dots> = (True \<notin> set (chunk_outcomes c env (buildChunks c p) w) \<and>
      False \<in> set (chunk_outcomes c env (buildChunks c p) w))"
    using u em by auto
  also have "\<dots> = (True \<notin> set (chunk_outcomes c env (buildChunks c p) w) \<and>
      chunk_outcomes c env (buildChunks c p) w \<noteq> [])"
    by (cases "chunk_outcomes c env (buildChunks c p) w") auto
  also have "\<dots> = (VisitedSites p \<noteq> [] \<and> True \<notin> set (chunk_outcomes c env (buildChunks c p) w))"
    using len buildChunks_empty [of p c] buildChunks_not_empty [of p c]
    by (cases "VisitedSites p = []") auto
  finally show ?thesis using u Send_counts [OF assms] Send_LastError [OF assms] by simp
qed


lemma confirmed_sites_before:
  assumes "\<forall>j. i \<le> j \<and> j < length chunks \<longrightarrow> \<not> chunk_outcomes c env chunks w ! j"
  shows "set (confirmed_sites c env chunks w) \<subseteq> set (concat (map VisitedSites (take i chunks)))"
proof
  fix s
  assume "s \<in> set (confirmed_sites c env chunks w)"
  then obtain ch where z: "(ch, True) \<in> set (zip chunks (chunk_outcomes c env chunks w))"
    and s: "s \<in> set (VisitedSites ch)"
    by (auto simp add: confirmed_sites_def)
  from z obtain n where n: "n < length chunks" "chunks ! n = ch"
    "chunk_outcomes c env chunks w ! n"
    by (auto simp add: in_set_zip)
  with assms have "n < i" by (meson not_le_imp_less)
  with n have "ch \<in> set (take i chunks)"
    by (auto simp add: in_set_conv_nth intro!: exI [of _ n])
  with s show "s \<in> set (concat (map VisitedSites (take i chunks)))" by auto
qed

lemma sorted_chunks_before:
  assumes "sorted (map Timestamp (concat (map VisitedSites chunks)))" and "i < length chunks"
    and "t \<in> set (concat (map VisitedSites (take i chunks)))"
    and "s \<in> set (VisitedSites (chunks ! i))"
  shows "Timestamp t \<le> Timestamp s"
proof -
  have "chunks = take i chunks @ chunks ! i # drop (Suc i) chunks"
    using assms(2) by (rule id_take_nth_drop)
  then have "concat (map VisitedSites chunks) =
      concat (map VisitedSites (take i chunks)) @
      (VisitedSites (chunks ! i) @ concat (map VisitedSites (drop (Suc i) chunks)))"
    by (metis concat.simps(2) concat_append list.simps(9) map_append)
  with assms(1) have "\<forall>x \<in> set (map Timestamp (concat (map VisitedSites (take i chunks)))).
      \<forall>y \<in> set (map Timestamp (VisitedSites (chunks ! i) @ concat (map VisitedSites (drop (Suc i) chunks)))).
      x \<le> y"
    by (simp only: map_append sorted_append) blast
  with assms(3,4) show ?thesis by auto
qed

text \<open>What \<open>Send\<close> returns for the watermark: 0 or the largest timestamp of the records
  of the confirmed chunks. In a batch in ascending order it passes no record of a failed
  chunk as long as no chunk after that one is confirmed.\<close>

theorem Send_maxTimestamp_from_confirmed_chunks:
  assumes "Send c env w p = (result, maxTimestamp, err, w')"
  shows "(maxTimestamp = 0 \<or>
          (\<exists>s \<in> set (confirmed_sites c env (buildChunks c p) w). Timestamp s = maxTimestamp)) \<and>
    (\<forall>s \<in> set (confirmed_sites c env (buildChunks c p) w). Timestamp s \<le> maxTimestamp) \<and>
    (sorted (map Timestamp (VisitedSites p)) \<longrightarrow>
      (\<forall>i. i < length (buildChunks c p) \<and>
           (\<forall>j. i \<le> j \<and> j < length (buildChunks c p) \<longrightarrow>
                \<not> chunk_outcomes c env (buildChunks c p) w ! j) \<longrightarrow>
           (\<forall>s \<in> set (VisitedSites (buildChunks c p ! i)).
              maxTimestamp \<le> max 0 (Timestamp s))))"
proof -
  let ?chunks = "buildChunks c p"
  let ?conf = "confirmed_sites c env ?chunks w"
  from Send_unfold [OF assms] have mx: "maxTimestamp = max_timestamp_loop ?conf 0" by simp
  have a: "maxTimestamp = 0 \<or> (\<exists>s \<in> set ?conf. Timestamp s = maxTimestamp)"
    unfolding mx by (rule max_timestamp_loop_mem)
  have b: "\<forall>s \<in> set ?conf. Timestamp s \<le> maxTimestamp"
    unfolding mx by (simp add: max_timestamp_loop_upper)
  have d: "maxTimestamp \<le> max 0 (Timestamp s)"
    if srt: "sorted (map Timestamp (VisitedSites p))" and i: "i < length ?chunks"
      and fl: "\<forall>j. i \<le> j \<and> j < length ?chunks \<longrightarrow> \<not> chunk_outcomes c env ?chunks w ! j"
      and s: "s \<in> set (VisitedSites (?chunks ! i))" for i s
  proof -
    from a show ?thesis
    proof
      assume "maxTimestamp = 0"
      then show ?thesis by simp
    next
      assume "\<exists>t \<in> set ?conf. Timestamp t = maxTimestamp"
      then obtain t where t: "t \<in> set ?conf" "Timestamp t = maxTimestamp" by blast
      from confirmed_sites_before [OF fl] t(1)
      have tb: "t \<in> set (concat (map VisitedSites (take i ?chunks)))" by blast
      from srt have sc: "sorted (map Timestamp (concat (map VisitedSites ?chunks)))"
        by (simp only: buildChunks_concat)
      have "Timestamp t \<le> Timestamp s"
        by (rule sorted_chunks_before [OF sc i tb s])
      with t(2) show ?thesis by simp
    qed
  qed
  from a b d show ?thesis by blast
qed

lemma Send_result_tuple:
  "Send c env w p =
     (fst (Send c env w p), fst (snd (Send c env w p)), fst (snd (snd (Send c env w p))),
      snd (snd (snd (Send c env w p))))"
  by simp

lemma example_buildChunks:
  "buildChunks example_client example_payload =
     [\<lparr>Principal = NewUserPrincipal ''alice'', VisitedSites = [\<lparr>URL = ''a'', Timestamp = 1\<rparr>],
       Source = ''hist_scanner''\<rparr>,
      \<lparr>Principal = NewUserPrincipal ''alice'', VisitedSites = [\<lparr>URL = ''b'', Timestamp = 2\<rparr>],
       Source = ''hist_scanner''\<rparr>]"
  by (simp add: example_client_def example_payload_def buildChunks_def seal_def entrySize_def)

lemma example_sendChunk:
  "sendChunk example_client (example_transport replies) w chunk =
     (if accepted (replies (length w))
      then (length (concat (map URL (VisitedSites chunk))),
            length (concat (map URL (VisitedSites chunk))), None)
      else (0, length (concat (map URL (VisitedSites chunk))),
            Some (case replies (length w) of
                    TransportError \<Rightarrow> RequestFailed
                  | Status statusCode \<Rightarrow> HttpError statusCode)),
      w @ [\<lparr>req_url = ''https://collector.example/api'', content_encoding_gzip = False,
             authorization = ''ProxyToken key'', body = concat (map URL (VisitedSites chunk))\<rparr>])"
  by (auto simp add: example_client_def example_transport_def sendChunk_def sendRaw_def
      do_request_cases accepted_def Let_def split: response.splits)

lemma example_Send_first_chunk_fails:
  "Send example_client (example_transport first_fails) []
     example_payload =
     (\<lparr>TotalSent = 1, ChunksSent = 1, LastError = Some (HttpError 500), FailedCount = 1,
       BytesSent = 1, BytesOriginal = 1\<rparr>, 2, None,
      [\<lparr>req_url = ''https://collector.example/api'', content_encoding_gzip = False,
        authorization = ''ProxyToken key'', body = ''a''\<rparr>,
       \<lparr>req_url = ''https://collector.example/api'', content_encoding_gzip = False,
        authorization = ''ProxyToken key'', body = ''b''\<rparr>])"
  by (simp add: Send_def example_buildChunks example_sendChunk accepted_def empty_result_def
      first_fails_def second_fails_def all_fail_def)
    (simp add: example_payload_def)

lemma example_Send_second_chunk_fails:
  "Send example_client (example_transport second_fails) []
     example_payload =
     (\<lparr>TotalSent = 1, ChunksSent = 1, LastError = Some (HttpError 500), FailedCount = 1,
       BytesSent = 1, BytesOriginal = 1\<rparr>, 1, None,
      [\<lparr>req_url = ''https://collector.example/api'', content_encoding_gzip = False,
        authorization = ''ProxyToken key'', body = ''a''\<rparr>,
       \<lparr>req_url = ''https://collector.example/api'', content_encoding_gzip = False,
        authorization = ''ProxyToken key'', body = ''b''\<rparr>])"
  by (simp add: Send_def example_buildChunks example_sendChunk accepted_def empty_result_def
      first_fails_def second_fails_def all_fail_def)
    (simp add: example_payload_def)

lemma example_Send_all_chunks_fail:
  "Send example_client (example_transport all_fail) [] example_payload =
     (\<lparr>TotalSent = 0, ChunksSent = 0, LastError = Some (HttpError 500), FailedCount = 2,
       BytesSent = 0, BytesOriginal = 0\<rparr>, 0, Some (HttpError 500),
      [\<lparr>req_url = ''https://collector.example/api'', content_encoding_gzip = False,
        authorization = ''ProxyToken key'', body = ''a''\<rparr>,
       \<lparr>req_url = ''https://collector.example/api'', content_encoding_gzip = False,
        authorization = ''ProxyToken key'', body = ''b''\<rparr>])"
  by (simp add: Send_def example_buildChunks example_sendChunk accepted_def empty_result_def
      first_fails_def second_fails_def all_fail_def)
    (simp add: example_payload_def)

lemma example_outcomes:
  "chunk_outcomes example_client (example_transport replies)
     (buildChunks example_client example_payload) [] =
     [accepted (replies 0), accepted (replies 1)]"
  by (auto simp add: example_buildChunks example_sendChunk)

section \<open>The example run, and properties of the orchestrator\<close>

lemma example_timestamps:
  "map (\<lambda>ch. map Timestamp (VisitedSites ch)) (buildChunks example_client example_payload) =
     [[1], [2]]"
  by (simp add: example_buildChunks)

lemma example_sorted: "sorted (map Timestamp (VisitedSites example_payload))"
  by (simp add: example_payload_def)

text \<open>Claim C2 fails as stated: when every chunk of a batch fails, \<open>Send\<close> returns the last
  chunk error as its own error.\<close>

theorem Send_returns_error_when_every_chunk_fails:
  "fst (snd (snd (Send example_client (example_transport all_fail) []
       example_payload))) = Some (HttpError 500)"
  by (simp add: example_Send_all_chunks_fail)

lemma example_Send_500_then_503:
  "Send example_client (example_transport fail_500_then_503) [] example_payload =
     (\<lparr>TotalSent = 0, ChunksSent = 0, LastError = Some (HttpError 503), FailedCount = 2,
       BytesSent = 0, BytesOriginal = 0\<rparr>, 0, Some (HttpError 503),
      [\<lparr>req_url = ''https://collector.example/api'', content_encoding_gzip = False,
        authorization = ''ProxyToken key'', body = ''a''\<rparr>,
       \<lparr>req_url = ''https://collector.example/api'', content_encoding_gzip = False,
        authorization = ''ProxyToken key'', body = ''b''\<rparr>])"
  by (simp add: Send_def example_buildChunks example_sendChunk accepted_def empty_result_def
      fail_500_then_503_def)
    (simp add: example_payload_def)

lemma example_errors_500_then_503:
  "chunk_errors example_client (example_transport fail_500_then_503)
     (buildChunks example_client example_payload) [] =
     [Some (HttpError 500), Some (HttpError 503)]"
  by (simp add: example_buildChunks example_sendChunk accepted_def fail_500_then_503_def)

theorem Send_error_only_when_nothing_sent_witness:
  "fst (snd (snd (Send example_client (example_transport second_fails) []
       example_payload))) = None \<and>
   LastError (fst (Send example_client (example_transport second_fails) []
       example_payload)) = Some (HttpError 500) \<and>
   FailedCount (fst (Send example_client (example_transport second_fails) []
       example_payload)) = 1 \<and>
   chunk_outcomes example_client (example_transport second_fails)
     (buildChunks example_client example_payload) [] = [True, False] \<and>
   chunk_errors example_client (example_transport fail_500_then_503)
     (buildChunks example_client example_payload) [] =
     [Some (HttpError 500), Some (HttpError 503)] \<and>
   fst (snd (snd (Send example_client (example_transport fail_500_then_503) []
       example_payload))) = Some (HttpError 503)"
proof -
  note t = Send_error_only_when_nothing_sent [OF Send_result_tuple [of example_client
      "example_transport second_fails" "[]" example_payload]]
  note t2 = Send_error_only_when_nothing_sent [OF Send_result_tuple [of example_client
      "example_transport fail_500_then_503" "[]" example_payload]]
  have a: "chunk_outcomes example_client (example_transport second_fails)
     (buildChunks example_client example_payload) [] = [True, False]"
    by (simp add: example_outcomes accepted_def second_fails_def)
  have b: "fst (snd (snd (Send example_client (example_transport fail_500_then_503) []
       example_payload))) = Some (HttpError 503)"
    using t2 by (simp add: example_errors_500_then_503 last_failure_def
        example_Send_500_then_503)
  have d: "fst (snd (snd (Send example_client (example_transport second_fails) []
       example_payload))) = None \<and>
   LastError (fst (Send example_client (example_transport second_fails) []
       example_payload)) = Some (HttpError 500) \<and>
   FailedCount (fst (Send example_client (example_transport second_fails) []
       example_payload)) = 1"
    using t by (simp only: example_Send_second_chunk_fails fst_conv snd_conv) simp
  from d a example_errors_500_then_503 b show ?thesis by blast
qed

lemma scanProfile_sent:
  "GetHistory b profile (lastTimestamp env st user b profile) = (entries, None) \<Longrightarrow>
   entries \<noteq> [] \<Longrightarrow> \<not> dryRun s \<Longrightarrow>
   Send (client s) (network env) (requests st)
     \<lparr>Principal = (if Username user = [] then NewIPPrincipal (localIP env)
                   else NewUserPrincipal (Username user)),
      VisitedSites = entries, Source = cfgSource s\<rparr> = (result, mx, None, w1) \<Longrightarrow>
   scanProfile s env st user b profile =
     ((TotalSent result, None),
      (if mx > 0
       then st\<lparr>data := SetLastTimestamp (data st) (Username user) (BrowserName b)
                   (ProfileName profile) mx,
               requests := w1\<rparr>
       else st\<lparr>requests := w1\<rparr>))"
  by (simp add: scanProfile_def Let_def)

lemma example_scanProfile_first_chunk_fails:
  "scanProfile example_scanner (example_env first_fails)
     example_state example_user example_browser example_profile =
     ((1, None),
      \<lparr>data = [''alice/chrome/Default'' \<mapsto> 2],
       requests =
         [\<lparr>req_url = ''https://collector.example/api'', content_encoding_gzip = False,
           authorization = ''ProxyToken key'', body = ''a''\<rparr>,
          \<lparr>req_url = ''https://collector.example/api'', content_encoding_gzip = False,
           authorization = ''ProxyToken key'', body = ''b''\<rparr>]\<rparr>)"
proof -
  have h: "GetHistory example_browser example_profile
      (lastTimestamp (example_env first_fails) example_state example_user example_browser
         example_profile) = (VisitedSites example_payload, None)"
    by (simp add: example_browser_def)
  have n: "VisitedSites example_payload \<noteq> []"
    by (simp add: example_payload_def)
  have p: "\<lparr>Principal = (if Username example_user = []
               then NewIPPrincipal (localIP (example_env first_fails))
               else NewUserPrincipal (Username example_user)),
            VisitedSites = VisitedSites example_payload,
            Source = cfgSource example_scanner\<rparr> = example_payload"
    by (simp add: example_payload_def example_user_def example_scanner_def)
  have e: "client example_scanner = example_client"
    "network (example_env first_fails) = example_transport first_fails"
    "requests example_state = []"
    by (simp_all add: example_scanner_def example_env_def example_state_def)
  have d: "\<not> dryRun example_scanner" by (simp add: example_scanner_def)
  have s: "Send (client example_scanner) (network (example_env first_fails))
       (requests example_state)
       \<lparr>Principal = (if Username example_user = []
               then NewIPPrincipal (localIP (example_env first_fails))
               else NewUserPrincipal (Username example_user)),
            VisitedSites = VisitedSites example_payload,
            Source = cfgSource example_scanner\<rparr> =
     (\<lparr>TotalSent = 1, ChunksSent = 1, LastError = Some (HttpError 500), FailedCount = 1,
       BytesSent = 1, BytesOriginal = 1\<rparr>, 2, None,
      [\<lparr>req_url = ''https://collector.example/api'', content_encoding_gzip = False,
        authorization = ''ProxyToken key'', body = ''a''\<rparr>,
       \<lparr>req_url = ''https://collector.example/api'', content_encoding_gzip = False,
        authorization = ''ProxyToken key'', body = ''b''\<rparr>])"
    unfolding p e by (rule example_Send_first_chunk_fails)
  show ?thesis
    unfolding scanProfile_sent [OF h n d s]
    by (simp add: SetLastTimestamp_def makeKey_def example_state_def example_user_def
        example_browser_def example_profile_def)
qed

lemma kilobyte_buildChunks:
  "buildChunks kilobyte_client long_payload =
     [\<lparr>Principal = NewUserPrincipal ''alice'',
       VisitedSites = [\<lparr>URL = replicate 600 CHR ''a'', Timestamp = 1\<rparr>],
       Source = ''hist_scanner''\<rparr>,
      \<lparr>Principal = NewUserPrincipal ''alice'',
       VisitedSites = [\<lparr>URL = replicate 600 CHR ''b'', Timestamp = 2\<rparr>],
       Source = ''hist_scanner''\<rparr>]"
  by (simp add: kilobyte_client_def NewClient_def long_payload_def buildChunks_def seal_def
      entrySize_def)

lemma kilobyte_sendChunk:
  "sendChunk kilobyte_client (example_transport replies) w chunk =
     (if accepted (replies (length w))
      then (length (concat (map URL (VisitedSites chunk))),
            length (concat (map URL (VisitedSites chunk))), None)
      else (0, length (concat (map URL (VisitedSites chunk))),
            Some (case replies (length w) of
                    TransportError \<Rightarrow> RequestFailed
                  | Status statusCode \<Rightarrow> HttpError statusCode)),
      w @ [\<lparr>req_url = ''https://collector.example/api'', content_encoding_gzip = False,
             authorization = ''ProxyToken key'', body = concat (map URL (VisitedSites chunk))\<rparr>])"
  by (auto simp add: kilobyte_client_def NewClient_def example_transport_def sendChunk_def
      sendRaw_def do_request_cases accepted_def Let_def split: response.splits)

lemma kilobyte_Send_first_chunk_fails:
  "fst (snd (Send kilobyte_client (example_transport first_fails) [] long_payload)) = 2 \<and>
   fst (snd (snd (Send kilobyte_client (example_transport first_fails) [] long_payload))) = None \<and>
   chunk_outcomes kilobyte_client (example_transport first_fails)
     (buildChunks kilobyte_client long_payload) [] = [False, True]"
proof -
  have n: "VisitedSites long_payload \<noteq> []" by (simp add: long_payload_def)
  have l: "Send_loop kilobyte_client (example_transport first_fails)
      (buildChunks kilobyte_client long_payload) empty_result 0 [] =
      (\<lparr>TotalSent = 1, ChunksSent = 1, LastError = Some (HttpError 500), FailedCount = 1,
        BytesSent = 600, BytesOriginal = 600\<rparr>, 2,
       [\<lparr>req_url = ''https://collector.example/api'', content_encoding_gzip = False,
         authorization = ''ProxyToken key'', body = replicate 600 CHR ''a''\<rparr>,
        \<lparr>req_url = ''https://collector.example/api'', content_encoding_gzip = False,
         authorization = ''ProxyToken key'', body = replicate 600 CHR ''b''\<rparr>])"
    by (simp add: kilobyte_buildChunks kilobyte_sendChunk accepted_def first_fails_def
        empty_result_def)
  have o: "chunk_outcomes kilobyte_client (example_transport first_fails)
     (buildChunks kilobyte_client long_payload) [] = [False, True]"
    by (simp add: kilobyte_buildChunks kilobyte_sendChunk accepted_def first_fails_def)
  from n o show ?thesis by (simp add: Send_def l)
qed

text \<open>Claim C1: the first chunk (timestamp 1) fails and the second (timestamp 2) is
  confirmed; \<open>Send\<close> returns 2 with a nil error, and \<open>scanProfile\<close> stores 2 as the watermark
  of the container, above the record of the failed chunk. The same happens with the
  one-kilobyte client.\<close>

theorem Send_watermark_passes_failed_chunk:
  "fst (snd (Send example_client (example_transport first_fails) [] example_payload)) = 2 \<and>
   chunk_outcomes example_client (example_transport first_fails)
     (buildChunks example_client example_payload) [] = [False, True] \<and>
   map (\<lambda>ch. map Timestamp (VisitedSites ch)) (buildChunks example_client example_payload) =
     [[1], [2]] \<and>
   data (snd (scanProfile example_scanner (example_env first_fails)
       example_state example_user example_browser example_profile))
     (makeKey ''alice'' ''chrome'' ''Default'') = Some 2 \<and>
   fst (snd (Send kilobyte_client (example_transport first_fails) [] long_payload)) = 2 \<and>
   chunk_outcomes kilobyte_client (example_transport first_fails)
     (buildChunks kilobyte_client long_payload) [] = [False, True] \<and>
   map (\<lambda>ch. map Timestamp (VisitedSites ch)) (buildChunks kilobyte_client long_payload) =
     [[1], [2]]"
proof -
  have a: "fst (snd (Send example_client (example_transport first_fails) [] example_payload)) = 2"
    by (simp add: example_Send_first_chunk_fails)
  have b: "chunk_outcomes example_client (example_transport first_fails)
     (buildChunks example_client example_payload) [] = [False, True]"
    by (simp add: example_outcomes accepted_def first_fails_def)
  have d: "data (snd (scanProfile example_scanner (example_env first_fails)
       example_state example_user example_browser example_profile))
     (makeKey ''alice'' ''chrome'' ''Default'') = Some 2"
    by (simp add: example_scanProfile_first_chunk_fails makeKey_def)
  have k: "map (\<lambda>ch. map Timestamp (VisitedSites ch)) (buildChunks kilobyte_client long_payload) =
     [[1], [2]]"
    by (simp add: kilobyte_buildChunks)
  from a b example_timestamps d kilobyte_Send_first_chunk_fails k show ?thesis by blast
qed

theorem Send_maxTimestamp_from_confirmed_chunks_witness:
  "fst (snd (Send example_client (example_transport second_fails) [] example_payload)) = 1 \<and>
   sorted (map Timestamp (VisitedSites example_payload)) \<and>
   chunk_outcomes example_client (example_transport second_fails)
     (buildChunks example_client example_payload) [] = [True, False] \<and>
   map (\<lambda>ch. map Timestamp (VisitedSites ch)) (buildChunks example_client example_payload) =
     [[1], [2]]"
proof -
  note t = Send_maxTimestamp_from_confirmed_chunks [OF Send_result_tuple [of example_client
      "example_transport second_fails" "[]" example_payload]]
  have a: "fst (snd (Send example_client (example_transport second_fails) [] example_payload)) = 1"
    by (simp add: example_Send_second_chunk_fails)
  have b: "chunk_outcomes example_client (example_transport second_fails)
     (buildChunks example_client example_payload) [] = [True, False]"
    by (simp add: example_outcomes accepted_def second_fails_def)
  from t a example_sorted b example_timestamps show ?thesis by blast
qed


lemma example_env_simps:
  "GetAllUsers (example_env replies) = ([example_user], None)"
  "All (example_env replies) = [example_browser]"
  by (simp_all add: example_env_def)

lemma example_browser_simps:
  "FindProfiles example_browser user = ([example_profile], None)"
  "BrowserName example_browser = ''chrome''"
  by (simp_all add: example_browser_def)

text \<open>Claim C3: a run whose only container has one failed and one confirmed chunk ends with
  exit status 0: \<open>scanProfile\<close> returns no error for it, so \<open>failureCount\<close> stays 0.\<close>

theorem Run_exit_success_after_failed_chunk:
  "ExitCode (fst (Run example_scanner (example_env first_fails) example_state)) = ExitSuccess \<and>
   exit_status (ExitCode (fst (Run example_scanner (example_env first_fails) example_state))) = 0 \<and>
   EntriesSent (fst (Run example_scanner (example_env first_fails) example_state)) = 1 \<and>
   Errors (fst (Run example_scanner (example_env first_fails) example_state)) = [] \<and>
   FailedCount (fst (Send example_client (example_transport first_fails) [] example_payload)) = 1 \<and>
   chunk_outcomes example_client (example_transport first_fails)
     (buildChunks example_client example_payload) [] = [False, True]"
proof -
  have r: "fst (Run example_scanner (example_env first_fails) example_state) =
      \<lparr>UsersScanned = 1, ProfilesScanned = 1, EntriesSent = 1, Errors = [],
       ExitCode = ExitSuccess\<rparr>"
    by (simp add: Run_def example_env_simps example_browser_simps
        example_scanProfile_first_chunk_fails empty_scan_def)
  have b: "chunk_outcomes example_client (example_transport first_fails)
     (buildChunks example_client example_payload) [] = [False, True]"
    by (simp add: example_outcomes accepted_def first_fails_def)
  have f: "FailedCount (fst (Send example_client (example_transport first_fails) []
      example_payload)) = 1"
    by (simp add: example_Send_first_chunk_fails)
  from b f show ?thesis unfolding r by simp
qed

text \<open>Claim C8: when the read of a container succeeds with no records, \<open>scanProfile\<close> returns
  (0, nil) and leaves the state as it was: no request is sent and no watermark is written.
  \<open>Send\<close> itself returns at once on a batch without records, sending nothing.\<close>

theorem scanProfile_skips_empty_container:
  assumes "GetHistory b profile (lastTimestamp env st user b profile) = ([], None)"
  shows "scanProfile s env st user b profile = ((0, None), st) \<and>
    Send c tenv w (p\<lparr>VisitedSites := []\<rparr>) = (empty_result, 0, None, w)"
  using assms by (simp add: scanProfile_def Send_def)

theorem scanProfile_skips_empty_container_witness:
  "GetHistory (example_browser\<lparr>GetHistory := (\<lambda>profile since. ([], None))\<rparr>) example_profile
     (lastTimestamp (example_env all_fail)
        \<lparr>data = [''alice/chrome/Default'' \<mapsto> 7], requests = []\<rparr> example_user
        (example_browser\<lparr>GetHistory := (\<lambda>profile since. ([], None))\<rparr>) example_profile) =
     ([], None) \<and>
   scanProfile example_scanner (example_env all_fail)
     \<lparr>data = [''alice/chrome/Default'' \<mapsto> 7], requests = []\<rparr> example_user
     (example_browser\<lparr>GetHistory := (\<lambda>profile since. ([], None))\<rparr>) example_profile =
     ((0, None), \<lparr>data = [''alice/chrome/Default'' \<mapsto> 7], requests = []\<rparr>)"
proof -
  have h: "GetHistory (example_browser\<lparr>GetHistory := (\<lambda>profile since. ([], None))\<rparr>)
      example_profile
     (lastTimestamp (example_env all_fail)
        \<lparr>data = [''alice/chrome/Default'' \<mapsto> 7], requests = []\<rparr> example_user
        (example_browser\<lparr>GetHistory := (\<lambda>profile since. ([], None))\<rparr>) example_profile) =
     ([], None)"
    by simp
  from h scanProfile_skips_empty_container [OF h, of example_scanner]
  show ?thesis by blast
qed

section \<open>Properties of the record sources\<close>

lemma profile_dirs_verified:
  "pr \<in> set (profile_dirs env baseDir entries profiles) \<Longrightarrow>
   pr \<in> set profiles \<or> Stat env (Join env [Path pr, ''History'']) = None"
proof (induction entries arbitrary: profiles)
  case Nil
  then show ?case by simp
next
  case (Cons entry rest)
  show ?case
  proof (cases "IsDir entry \<and> (EntryName entry = ''Default'' \<or> HasPrefix (EntryName entry) ''Profile '')
      \<and> Stat env (Join env [Join env [baseDir, EntryName entry], ''History'']) = None")
    case True
    with Cons.prems have "pr \<in> set (profile_dirs env baseDir rest
        (profiles @ [\<lparr>ProfileName = EntryName entry, Path = Join env [baseDir, EntryName entry]\<rparr>]))"
      by (simp add: Let_def)
    from Cons.IH [OF this] True show ?thesis by auto
  next
    case False
    with Cons.prems have "pr \<in> set (profile_dirs env baseDir rest profiles)"
      by (auto simp add: Let_def split: if_splits)
    from Cons.IH [OF this] show ?thesis .
  qed
qed

lemma ChromiumFindProfiles_no_error: "snd (ChromiumFindProfiles env c user) = None"
  by (simp add: ChromiumFindProfiles_def Let_def split: prod.splits option.splits)

lemma ChromiumFindProfiles_verified:
  assumes "pr \<in> set (fst (ChromiumFindProfiles env c user))"
  shows "Stat env (Join env [Path pr, ''History'']) = None"
proof (cases "hasProfiles c")
  case True
  with assms obtain entries where "pr \<in> set (profile_dirs env (getBaseDir env c user) entries [])"
    by (auto simp add: ChromiumFindProfiles_def Let_def split: if_splits prod.splits option.splits)
  from profile_dirs_verified [OF this] show ?thesis by simp
next
  case False
  with assms show ?thesis
    by (auto simp add: ChromiumFindProfiles_def Let_def split: if_splits)
qed

lemma ChromiumFindProfiles_absent:
  "getBaseDir env c user = [] \<or> IsNotExist (Stat env (getBaseDir env c user)) \<Longrightarrow>
   ChromiumFindProfiles env c user = ([], None)"
  by (auto simp add: ChromiumFindProfiles_def Let_def)

lemma SafariFindProfiles_absent:
  "CurrentOS env \<noteq> Darwin \<or>
   IsNotExist (Stat env (Join env [HomeDir user, ''Library/Safari/History.db''])) \<Longrightarrow>
   SafariFindProfiles env user = ([], None)"
  by (auto simp add: SafariFindProfiles_def Let_def)

text \<open>Claim C9: on macOS, when \<open>os.Stat\<close> of Safari's \<open>History.db\<close> fails with a
  permission error, \<open>SafariBrowser.FindProfiles\<close> still returns the profile, although the
  file was not seen to exist; \<open>ChromiumBrowser.FindProfiles\<close> returns none in the same
  situation, as it asks for \<open>err == nil\<close>.\<close>

theorem SafariFindProfiles_includes_unverified_history:
  "Stat denied_os ''/Users/alice/Library/Safari/History.db'' = Some ErrPermission \<and>
   SafariFindProfiles denied_os example_user =
     ([\<lparr>ProfileName = ''Default'', Path = ''/Users/alice/Library/Safari''\<rparr>], None) \<and>
   ChromiumFindProfiles denied_os example_opera example_user = ([], None)"
  by (simp add: denied_os_def example_user_def example_opera_def SafariFindProfiles_def
      ChromiumFindProfiles_def getBaseDir_def Join_def Separator_def IsNotExist_def Let_def
      Clean_def volume_length_def IsPathSeparator_def)

lemma wrap64_id: "- (2 ^ 63) \<le> x \<Longrightarrow> x < 2 ^ 63 \<Longrightarrow> wrap64 x = x"
  by (simp add: wrap64_def)

lemma quot_1000: "quot x 1000 = (if 0 \<le> x then x div 1000 else - ((- x) div 1000))"
  by (simp add: quot_def sgn_if)

lemma quot_1000_mono: "x \<le> y \<Longrightarrow> quot x 1000 \<le> quot y 1000"
proof -
  assume le: "x \<le> y"
  have "x div 1000 \<le> y div 1000" using le by (rule zdiv_mono1) simp
  moreover have "(- y) div 1000 \<le> (- x) div 1000" by (rule zdiv_mono1) (use le in simp_all)
  moreover have "0 \<le> y \<Longrightarrow> 0 \<le> y div 1000" by simp
  moreover have "x < 0 \<Longrightarrow> 0 \<le> (- x) div 1000" by simp
  ultimately show ?thesis by (auto simp add: quot_1000)
qed


















section \<open>Properties of the float64 rounding\<close>

lemma bit_length_pos: "0 < n \<Longrightarrow> bit_length n = bit_length (n div 2) + 1"
  by (simp add: bit_length.simps [of n])

lemma bit_length_nonpos: "n \<le> 0 \<Longrightarrow> bit_length n = 0"
  by (simp add: bit_length.simps [of n])


lemma bit_length_ge1: "0 < n \<Longrightarrow> 1 \<le> bit_length n"
proof -
  assume n: "0 < n"
  have "0 \<le> bit_length m" for m
    by (induction m rule: bit_length.induct) (simp add: bit_length.simps)
  then have "0 \<le> bit_length (n div 2)" .
  with n show ?thesis by (simp add: bit_length_pos)
qed

lemma bit_length_bounds:
  "0 < n \<Longrightarrow> 2 powi (bit_length n - 1) \<le> (of_int n :: rat) \<and> (of_int n :: rat) < 2 powi (bit_length n)"
proof (induction n rule: bit_length.induct)
  case (1 n)
  show ?case
  proof (cases "n div 2 \<le> 0")
    case True
    with 1(2) have "n = 1" by presburger
    then show ?thesis by (simp add: bit_length_pos bit_length_nonpos)
  next
    case False
    then have h: "0 < n div 2" by simp
    with 1 have ih: "2 powi (bit_length (n div 2) - 1) \<le> (of_int (n div 2) :: rat)"
      "(of_int (n div 2) :: rat) < 2 powi (bit_length (n div 2))"
      by simp_all
    have bl: "bit_length n = bit_length (n div 2) + 1"
      using 1(2) by (rule bit_length_pos)
    have "(2::rat) powi (bit_length n - 1) = 2 * 2 powi (bit_length (n div 2) - 1)"
      unfolding bl by (simp add: power_int_diff)
    also have "\<dots> \<le> 2 * of_int (n div 2)" using ih(1) by simp
    also have "\<dots> = of_int (2 * (n div 2))" by simp
    also have "\<dots> \<le> of_int n" by simp
    finally have a: "2 powi (bit_length n - 1) \<le> (of_int n :: rat)" .
    have "(of_int (n div 2) :: rat) < 2 powi (bit_length (n div 2))" by (rule ih(2))
    moreover have "(2::rat) powi (bit_length (n div 2)) = of_int (2 ^ nat (bit_length (n div 2)))"
      using bit_length_ge1 [OF h] by (simp add: power_int_def)
    ultimately have "n div 2 < 2 ^ nat (bit_length (n div 2))"
      by (simp only: of_int_less_iff)
    then have "n div 2 + 1 \<le> 2 ^ nat (bit_length (n div 2))" by simp
    then have "2 * (n div 2) + 2 \<le> 2 * 2 ^ nat (bit_length (n div 2))" by simp
    moreover have "n < 2 * (n div 2) + 2" by presburger
    ultimately have "n < 2 * 2 ^ nat (bit_length (n div 2))" by simp
    then have "(of_int n :: rat) < of_int (2 * 2 ^ nat (bit_length (n div 2)))"
      by (simp only: of_int_less_iff)
    also have "\<dots> = 2 powi (bit_length n)"
      unfolding bl using bit_length_ge1 [OF h] by (simp add: power_int_def nat_add_distrib)
    finally have b: "(of_int n :: rat) < 2 powi (bit_length n)" .
    from a b show ?thesis ..
  qed
qed


lemma ilog2_bounds:
  assumes "0 < x"
  shows "2 powi ilog2 x \<le> x \<and> x < 2 powi (ilog2 x + 1)"
proof (cases "1 \<le> x")
  case True
  then have n: "0 < \<lfloor>x\<rfloor>" by simp
  from bit_length_bounds [OF n]
  have a: "2 powi (bit_length \<lfloor>x\<rfloor> - 1) \<le> (of_int \<lfloor>x\<rfloor> :: rat)"
    and b: "(of_int \<lfloor>x\<rfloor> :: rat) < 2 powi (bit_length \<lfloor>x\<rfloor>)" by simp_all
  have "(2::rat) powi (bit_length \<lfloor>x\<rfloor>) = of_int (2 ^ nat (bit_length \<lfloor>x\<rfloor>))"
    using bit_length_ge1 [OF n] by (simp add: power_int_def)
  with b have "\<lfloor>x\<rfloor> < 2 ^ nat (bit_length \<lfloor>x\<rfloor>)" by (simp only: of_int_less_iff)
  then have "x < of_int (2 ^ nat (bit_length \<lfloor>x\<rfloor>))" by (simp only: floor_less_iff)
  also have "\<dots> = 2 powi (bit_length \<lfloor>x\<rfloor>)"
    using bit_length_ge1 [OF n] by (simp add: power_int_def)
  finally have "x < 2 powi (bit_length \<lfloor>x\<rfloor>)" .
  moreover have "2 powi (bit_length \<lfloor>x\<rfloor> - 1) \<le> x"
    using a of_int_floor_le [of x] by (rule order_trans)
  ultimately show ?thesis using True by (simp add: ilog2_def)
next
  case False
  with assms have x: "0 < x" "x < 1" by simp_all
  define y where "y = 1 / x"
  have y: "1 < y" using x by (simp add: y_def)
  define m where "m = \<lceil>y\<rceil> - 1"
  have m: "0 < m" using y by (simp add: m_def less_ceiling_iff)
  have my: "of_int m < y" unfolding m_def using ceiling_correct [of y] by simp
  have ym: "y \<le> of_int m + 1" unfolding m_def using ceiling_correct [of y] by simp
  from bit_length_bounds [OF m]
  have a: "2 powi (bit_length m - 1) \<le> (of_int m :: rat)"
    and b: "(of_int m :: rat) < 2 powi (bit_length m)" by simp_all
  have p: "(2::rat) powi (bit_length m) = of_int (2 ^ nat (bit_length m))"
    using bit_length_ge1 [OF m] by (simp add: power_int_def)
  with b have "m < 2 ^ nat (bit_length m)" by (simp only: of_int_less_iff)
  then have "m + 1 \<le> 2 ^ nat (bit_length m)" by simp
  then have "(of_int (m + 1) :: rat) \<le> of_int (2 ^ nat (bit_length m))"
    by (simp only: of_int_le_iff)
  with ym p have yu: "y \<le> 2 powi (bit_length m)" by simp
  from a my have yl: "2 powi (bit_length m - 1) < y" by (rule le_less_trans)
  have il: "ilog2 x = - bit_length m"
    using False by (simp add: ilog2_def m_def y_def)
  have pos: "(0::rat) < 2 powi (bit_length m)" "(0::rat) < 2 powi (bit_length m - 1)" by simp_all
  have "1 / 2 powi (bit_length m) \<le> 1 / y"
    using yu y by (simp add: frac_le)
  then have l: "2 powi (- bit_length m) \<le> x"
    using x by (simp add: y_def power_int_minus divide_inverse)
  have "1 / y < 1 / 2 powi (bit_length m - 1)"
    using yl pos by (simp add: frac_less2)
  then have u: "x < 2 powi (- bit_length m + 1)"
    using x by (simp add: y_def power_int_minus [symmetric] divide_inverse [symmetric]
        power_int_minus_divide [symmetric] flip: power_int_minus) 
  from l u show ?thesis by (simp add: il)
qed


lemma ilog2_less: "0 < x \<Longrightarrow> x < 2 powi k \<Longrightarrow> ilog2 x < k"
proof (rule ccontr)
  assume x: "0 < x" "x < 2 powi k" and "\<not> ilog2 x < k"
  then have "k \<le> ilog2 x" by simp
  then have "(2::rat) powi k \<le> 2 powi ilog2 x" by (rule power_int_increasing) simp
  also have "\<dots> \<le> x" using ilog2_bounds [OF x(1)] by simp
  finally show False using x(2) by simp
qed

lemma ilog2_ge: "0 < x \<Longrightarrow> 2 powi k \<le> x \<Longrightarrow> k \<le> ilog2 x"
proof (rule ccontr)
  assume x: "0 < x" "2 powi k \<le> x" and "\<not> k \<le> ilog2 x"
  then have "ilog2 x + 1 \<le> k" by simp
  then have "(2::rat) powi (ilog2 x + 1) \<le> 2 powi k" by (rule power_int_increasing) simp
  with ilog2_bounds [OF x(1)] have "x < 2 powi k" by simp
  with x(2) show False by simp
qed

lemma ilog2_mono: "0 < x \<Longrightarrow> x \<le> y \<Longrightarrow> ilog2 x \<le> ilog2 y"
proof -
  assume x: "0 < x" "x \<le> y"
  then have y: "0 < y" by simp
  have "2 powi ilog2 x \<le> y" using ilog2_bounds [OF x(1)] x(2) by simp
  with y show ?thesis by (rule ilog2_ge)
qed

lemma round_half_even_cases:
  "round_half_even z = \<lfloor>z\<rfloor> \<or> round_half_even z = \<lfloor>z\<rfloor> + 1"
  by (simp add: round_half_even_def Let_def)

lemma round_half_even_error:
  "\<bar>of_int (round_half_even z) - z\<bar> \<le> 1 / 2"
proof -
  have "of_int \<lfloor>z\<rfloor> \<le> z" "z < of_int \<lfloor>z\<rfloor> + 1" by linarith+
  then show ?thesis by (auto simp add: round_half_even_def Let_def)
qed

lemma round_half_even_of_int [simp]: "round_half_even (of_int n) = n"
  by (simp add: round_half_even_def)

lemma round_half_even_mono:
  assumes "z \<le> w"
  shows "round_half_even z \<le> round_half_even w"
proof (cases "\<lfloor>z\<rfloor> = \<lfloor>w\<rfloor>")
  case True
  with assms show ?thesis by (auto simp add: round_half_even_def Let_def)
next
  case False
  with assms have "\<lfloor>z\<rfloor> < \<lfloor>w\<rfloor>" using floor_mono [OF assms] by simp
  then have "\<lfloor>z\<rfloor> + 1 \<le> \<lfloor>w\<rfloor>" by simp
  moreover have "round_half_even z \<le> \<lfloor>z\<rfloor> + 1"
    using round_half_even_cases [of z] by auto
  moreover have "\<lfloor>w\<rfloor> \<le> round_half_even w"
    using round_half_even_cases [of w] by auto
  ultimately show ?thesis by simp
qed

lemma float64_minus: "float64 (- x) = - float64 x"
  by (simp add: float64_def float64_exponent_def)

lemma float64_pos:
  "0 < x \<Longrightarrow> float64 x =
     of_int (round_half_even (x / 2 powi float64_exponent x)) * (2::rat) powi float64_exponent x"
  by (simp add: float64_def)

lemma float64_nonneg: "0 \<le> x \<Longrightarrow> 0 \<le> float64 x"
proof (cases "x = 0")
  case True
  then show ?thesis by (simp add: float64_def)
next
  case False
  assume "0 \<le> x"
  with False have x: "0 < x" by simp
  have "round_half_even 0 \<le> round_half_even (x / 2 powi float64_exponent x)"
    by (rule round_half_even_mono) (use x in simp)
  then have "0 \<le> round_half_even (x / 2 powi float64_exponent x)"
    using round_half_even_of_int [of 0] by simp
  then show ?thesis using x by (simp add: float64_pos)
qed

lemma float64_exponent_mono:
  "0 < x \<Longrightarrow> x \<le> y \<Longrightarrow> float64_exponent x \<le> float64_exponent y"
  using ilog2_mono [of x y] by (simp add: float64_exponent_def)

lemma float64_upper:
  assumes "0 < x"
  shows "float64 x \<le> 2 powi (float64_exponent x + 53)"
proof -
  let ?e = "float64_exponent x"
  have "ilog2 x - 52 \<le> ?e" using assms by (simp add: float64_exponent_def)
  then have "ilog2 x + 1 \<le> ?e + 53" by simp
  then have "(2::rat) powi (ilog2 x + 1) \<le> 2 powi (?e + 53)"
    by (rule power_int_increasing) simp
  with ilog2_bounds [OF assms] have "x \<le> 2 powi (?e + 53)" by simp
  then have "x / 2 powi ?e \<le> 2 powi (?e + 53) / 2 powi ?e"
    by (simp add: divide_right_mono)
  also have "\<dots> = of_int (2 ^ 53)" by (simp add: power_int_add)
  finally have "round_half_even (x / 2 powi ?e) \<le> round_half_even (of_int (2 ^ 53))"
    by (rule round_half_even_mono)
  then have "round_half_even (x / 2 powi ?e) \<le> 2 ^ 53" by (simp only: round_half_even_of_int)
  then have "(of_int (round_half_even (x / 2 powi ?e)) :: rat) \<le> of_int (2 ^ 53)"
    by (simp only: of_int_le_iff)
  then have "of_int (round_half_even (x / 2 powi ?e)) * (2::rat) powi ?e \<le> of_int (2 ^ 53) * (2::rat) powi ?e"
    by (rule mult_right_mono) simp
  also have "\<dots> = 2 powi (?e + 53)" by (simp add: power_int_add)
  finally show ?thesis using assms by (simp add: float64_pos)
qed

lemma float64_lower:
  assumes "0 < x" and "- 1074 < float64_exponent x"
  shows "2 powi (float64_exponent x + 52) \<le> float64 x"
proof -
  let ?e = "float64_exponent x"
  from assms(2) have e: "?e = ilog2 x - 52" using assms(1) by (simp add: float64_exponent_def)
  then have "2 powi (?e + 52) \<le> x" using ilog2_bounds [OF assms(1)] by simp
  then have "2 powi (?e + 52) / 2 powi ?e \<le> x / 2 powi ?e"
    by (simp add: divide_right_mono)
  moreover have "(2::rat) powi (?e + 52) / 2 powi ?e = of_int (2 ^ 52)" by (simp add: power_int_add)
  ultimately have "round_half_even (of_int (2 ^ 52)) \<le> round_half_even (x / 2 powi ?e)"
    by (simp only: round_half_even_mono)
  then have "2 ^ 52 \<le> round_half_even (x / 2 powi ?e)" by (simp only: round_half_even_of_int)
  then have "(of_int (2 ^ 52) :: rat) \<le> of_int (round_half_even (x / 2 powi ?e))"
    by (simp only: of_int_le_iff)
  then have m: "of_int (2 ^ 52) * (2::rat) powi ?e \<le> of_int (round_half_even (x / 2 powi ?e)) * (2::rat) powi ?e"
    by (rule mult_right_mono) simp
  have "(2::rat) powi (?e + 52) = of_int (2 ^ 52) * (2::rat) powi ?e" by (simp add: power_int_add)
  also note m
  also have "of_int (round_half_even (x / 2 powi ?e)) * (2::rat) powi ?e = float64 x"
    using assms(1) by (simp only: float64_pos)
  finally show ?thesis .
qed

lemma float64_mono_pos:
  assumes "0 < x" and "x \<le> y"
  shows "float64 x \<le> float64 y"
proof -
  from assms have y: "0 < y" by simp
  let ?ex = "float64_exponent x" and ?ey = "float64_exponent y"
  have le: "?ex \<le> ?ey" using assms by (rule float64_exponent_mono)
  show ?thesis
  proof (cases "?ex = ?ey")
    case True
    have "x / 2 powi ?ey \<le> y / 2 powi ?ey" using assms(2) by (simp add: divide_right_mono)
    then have "round_half_even (x / 2 powi ?ey) \<le> round_half_even (y / 2 powi ?ey)"
      by (rule round_half_even_mono)
    then have "(of_int (round_half_even (x / 2 powi ?ey)) :: rat) \<le>
        of_int (round_half_even (y / 2 powi ?ey))" by (simp only: of_int_le_iff)
    then have "of_int (round_half_even (x / 2 powi ?ey)) * (2::rat) powi ?ey \<le>
        of_int (round_half_even (y / 2 powi ?ey)) * (2::rat) powi ?ey"
      by (rule mult_right_mono) simp
    then show ?thesis using assms(1) y True by (simp add: float64_pos)
  next
    case False
    with le have lt: "?ex < ?ey" by simp
    have "- 1074 \<le> ?ex" by (simp add: float64_exponent_def)
    with lt have n: "- 1074 < ?ey" by simp
    have "float64 x \<le> 2 powi (?ex + 53)" using assms(1) by (rule float64_upper)
    also have "\<dots> \<le> 2 powi (?ey + 52)" by (rule power_int_increasing) (use lt in simp_all)
    also have "\<dots> \<le> float64 y" using y n by (rule float64_lower)
    finally show ?thesis .
  qed
qed

lemma float64_mono:
  assumes "x \<le> y"
  shows "float64 x \<le> float64 y"
proof -
  consider "0 < x" | "x \<le> 0" "0 \<le> y" | "y < 0" by linarith
  then show ?thesis
  proof cases
    case 1
    then show ?thesis using assms by (rule float64_mono_pos)
  next
    case 2
    have "float64 x \<le> 0" using float64_nonneg [of "- x"] 2(1) by (simp add: float64_minus)
    also have "0 \<le> float64 y" using 2(2) by (rule float64_nonneg)
    finally show ?thesis .
  next
    case 3
    then have "0 < - y" "- y \<le> - x" using assms by simp_all
    then have "float64 (- y) \<le> float64 (- x)" by (rule float64_mono_pos)
    then show ?thesis by (simp add: float64_minus)
  qed
qed


lemma float64_error:
  assumes "\<bar>x\<bar> < 2 powi k" and "- 1021 \<le> k"
  shows "\<bar>float64 x - x\<bar> \<le> 2 powi (k - 54)"
proof (cases "x = 0")
  case True
  then show ?thesis by (simp add: float64_def)
next
  case False
  let ?e = "float64_exponent x"
  let ?z = "\<bar>x\<bar> / 2 powi ?e"
  have ax: "0 < \<bar>x\<bar>" using False by simp
  have "ilog2 \<bar>x\<bar> < k" using ax assms(1) by (rule ilog2_less)
  with assms(2) have e: "?e - 1 \<le> k - 54" by (simp add: float64_exponent_def)
  have p: "(0::rat) < 2 powi ?e" by simp
  have fx: "float64 x = sgn x * (of_int (round_half_even ?z) * 2 powi ?e)"
    using False by (simp add: float64_def)
  have "float64 x - x =
      sgn x * (of_int (round_half_even ?z) * 2 powi ?e) - sgn x * \<bar>x\<bar>"
    by (simp only: fx mult_sgn_abs)
  also have "\<dots> = sgn x * (of_int (round_half_even ?z) * 2 powi ?e - \<bar>x\<bar>)"
    by (simp only: right_diff_distrib)
  also have "of_int (round_half_even ?z) * 2 powi ?e - \<bar>x\<bar> =
      (of_int (round_half_even ?z) - ?z) * 2 powi ?e"
    using p by (simp add: algebra_simps)
  finally have "\<bar>float64 x - x\<bar> = \<bar>of_int (round_half_even ?z) - ?z\<bar> * 2 powi ?e"
    using False by (simp add: abs_mult abs_sgn_eq)
  also have "\<dots> \<le> (1 / 2) * 2 powi ?e"
    by (rule mult_right_mono [OF round_half_even_error]) simp
  also have "\<dots> = 2 powi (?e - 1)" by (simp add: power_int_diff)
  also have "\<dots> \<le> 2 powi (k - 54)" using e by (rule power_int_increasing) simp
  finally show ?thesis .
qed

lemma float64_exact:
  assumes "\<bar>n\<bar> < 2 ^ 53" and "- 1074 \<le> j"
  shows "float64 (of_int n * 2 powi j) = of_int n * 2 powi j"
proof (cases "n = 0")
  case True
  then show ?thesis by (simp add: float64_def)
next
  case False
  define x :: rat where "x = of_int n * 2 powi j"
  let ?e = "float64_exponent x"
  have x0: "x \<noteq> 0" using False by (simp add: x_def)
  have ax: "\<bar>x\<bar> = of_int \<bar>n\<bar> * 2 powi j" by (simp add: x_def abs_mult)
  have "(of_int \<bar>n\<bar> :: rat) < of_int (2 ^ 53)" using assms(1) by (simp only: of_int_less_iff)
  then have "of_int \<bar>n\<bar> * (2::rat) powi j < of_int (2 ^ 53) * 2 powi j"
    by (rule mult_strict_right_mono) simp
  also have "\<dots> = 2 powi (53 + j)" by (simp add: power_int_add)
  finally have "\<bar>x\<bar> < 2 powi (53 + j)" by (simp only: ax)
  moreover have "0 < \<bar>x\<bar>" using x0 by simp
  ultimately have "ilog2 \<bar>x\<bar> < 53 + j" by (rule ilog2_less [rotated])
  with assms(2) have e: "?e \<le> j" by (simp add: float64_exponent_def)
  then have "(2::rat) powi j = 2 powi (j - ?e) * 2 powi ?e"
    by (simp add: power_int_add [symmetric])
  also have "(2::rat) powi (j - ?e) = of_int (2 ^ nat (j - ?e))"
    using e by (simp add: power_int_def)
  finally have pj: "(2::rat) powi j = of_int (2 ^ nat (j - ?e)) * 2 powi ?e" .
  have "\<bar>x\<bar> / 2 powi ?e = of_int (\<bar>n\<bar> * 2 ^ nat (j - ?e))"
    unfolding ax by (subst pj) simp
  then have "round_half_even (\<bar>x\<bar> / 2 powi ?e) = \<bar>n\<bar> * 2 ^ nat (j - ?e)"
    by (simp only: round_half_even_of_int)
  then have "float64 x = sgn x * (of_int (\<bar>n\<bar> * 2 ^ nat (j - ?e)) * 2 powi ?e)"
    using x0 by (simp add: float64_def)
  also have "of_int (\<bar>n\<bar> * 2 ^ nat (j - ?e)) * (2::rat) powi ?e = \<bar>x\<bar>"
    unfolding ax using pj by simp
  also have "sgn x * \<bar>x\<bar> = x" by (rule mult_sgn_abs)
  finally show ?thesis by (simp only: x_def)
qed

lemma float64_of_int: "\<bar>n\<bar> < 2 ^ 53 \<Longrightarrow> float64 (of_int n) = of_int n"
  using float64_exact [of n 0] by simp

lemma round_half_even_unique:
  assumes "of_int m - 1 / 2 < z" and "z < of_int m + 1 / 2"
  shows "round_half_even z = m"
proof -
  have f: "of_int \<lfloor>z\<rfloor> \<le> z" "z < of_int \<lfloor>z\<rfloor> + 1" by linarith+
  from assms f have "(of_int m :: rat) - 1 < of_int \<lfloor>z\<rfloor> + 1" "(of_int \<lfloor>z\<rfloor> :: rat) < of_int m + 1"
    by linarith+
  then have "(of_int (m - 1) :: rat) < of_int (\<lfloor>z\<rfloor> + 1)" "(of_int \<lfloor>z\<rfloor> :: rat) < of_int (m + 1)"
    by simp_all
  then have "m - 1 < \<lfloor>z\<rfloor> + 1" "\<lfloor>z\<rfloor> < m + 1" by (simp_all only: of_int_less_iff)
  then consider "\<lfloor>z\<rfloor> = m" | "\<lfloor>z\<rfloor> = m - 1" by linarith
  then show ?thesis
  proof cases
    case 1
    with assms show ?thesis by (simp add: round_half_even_def Let_def)
  next
    case 2
    with assms show ?thesis by (simp add: round_half_even_def Let_def)
  qed
qed

lemma float64_eval:
  assumes "0 < x" and "2 powi (e + 52) \<le> x" and "x < 2 powi (e + 53)" and "- 1074 \<le> e"
    and "of_int m - 1 / 2 < x / 2 powi e" and "x / 2 powi e < of_int m + 1 / 2"
  shows "float64 x = of_int m * 2 powi e"
proof -
  have "e + 52 \<le> ilog2 x" using assms(1,2) by (rule ilog2_ge)
  moreover have "ilog2 x < e + 53" using assms(1,3) by (rule ilog2_less)
  ultimately have "ilog2 x = e + 52" by simp
  with assms(1,4) have ex: "float64_exponent x = e" by (simp add: float64_exponent_def)
  have "round_half_even (x / 2 powi e) = m" using assms(5,6) by (rule round_half_even_unique)
  with ex assms(1) show ?thesis by (simp add: float64_pos)
qed

lemma float64_eval_to:
  assumes "0 < x" and "2 powi (e + 52) \<le> x" and "x < 2 powi (e + 53)" and "- 1074 \<le> e"
    and "of_int m - 1 / 2 < x / 2 powi e" and "x / 2 powi e < of_int m + 1 / 2"
    and "y = of_int m * 2 powi e"
  shows "float64 x = y"
  using float64_eval [OF assms(1-6)] assms(7) by simp

lemma safariTimestamp_steps:
  "0 < W \<Longrightarrow> float64 (of_int W) = a \<Longrightarrow> float64 (a / 1000) = b \<Longrightarrow>
   float64 (b - 978307200) = c \<Longrightarrow> safariTimestamp W = c"
  by (simp add: safariTimestamp_def)

lemma safariUnixMs_steps:
  "float64 (v + 978307200) = a \<Longrightarrow> float64 (a * 1000) = b \<Longrightarrow> int64_of_float64 b = n \<Longrightarrow>
   safariUnixMs v = n"
  by (simp add: safariUnixMs_def)

lemma safari_example_bound:
  "safariTimestamp 1082301024445 = 436181713844961 / 4194304"
proof (rule safariTimestamp_steps [where a = 1082301024445 and b = "4539499516033761 / 4194304"])
  show "(0::int) < 1082301024445" by simp
  show "float64 (of_int 1082301024445) = 1082301024445"
    using float64_of_int [of 1082301024445] by simp
  show "float64 (1082301024445 / 1000) = 4539499516033761 / 4194304"
    by (rule float64_eval_to [where m = 4539499516033761 and e = "- 22"]) simp_all
  show "float64 (4539499516033761 / 4194304 - 978307200) = 436181713844961 / 4194304"
    by (rule float64_eval_to [where m = 6978907421519376 and e = "- 26"]) simp_all
qed

lemma safari_example_row:
  "safariUnixMs (6978907421519377 / 67108864) = 1082301024444"
proof (rule safariUnixMs_steps [where a = "4539499516033761 / 4194304"
      and b = "8866209992253439 / 8192"])
  show "float64 (6978907421519377 / 67108864 + 978307200) = 4539499516033761 / 4194304"
    by (rule float64_eval_to [where m = 4539499516033761 and e = "- 22"]) simp_all
  show "float64 (4539499516033761 / 4194304 * 1000) = 8866209992253439 / 8192"
    by (rule float64_eval_to [where m = 8866209992253439 and e = "- 13"]) simp_all
  show "int64_of_float64 (8866209992253439 / 8192) = 1082301024444"
    by (simp add: int64_of_float64_def floor_eq_iff)
qed

section \<open>Properties of the Firefox and Safari sources\<close>

lemma delivered_rows:
  assumes "delivered database selected = (rows, e)"
  shows "\<exists>n. rows = take n selected"
proof -
  from assms have "rows = selected \<or> (\<exists>n. rows = take n selected)"
    by (auto simp add: delivered_def split: option.splits if_splits)
  then show ?thesis by (metis take_all order_refl)
qed

lemma scan_places_map:
  "scan_places rows sites =
     sites @ map (\<lambda>(u, d). \<lparr>URL = the u, Timestamp = firefoxUnixMs d\<rparr>)
       (filter (\<lambda>(u, d). u \<noteq> None) rows)"
  by (induction rows sites rule: scan_places.induct) simp_all

lemma scan_visits_map:
  "scan_visits rows sites =
     sites @ map (\<lambda>(u, v). \<lparr>URL = the u, Timestamp = safariUnixMs v\<rparr>)
       (filter (\<lambda>(u, v). u \<noteq> None) rows)"
  by (induction rows sites rule: scan_visits.induct) simp_all

lemma Query_places_rows:
  assumes "Query_places database since = Inr (rows, e)"
  shows "sorted (map snd rows) \<and>
    (\<forall>(u, d) \<in> set rows. since < d \<and>
       (\<exists>r \<in> set (moz_places database). place_url r = u \<and> last_visit_date r = Some d))"
proof -
  let ?sel = "concat (map (\<lambda>r. case last_visit_date r of
                                     None \<Rightarrow> []
                                   | Some d \<Rightarrow> if d > since then [(place_url r, d)] else [])
                           (moz_places database))"
  from assms have "delivered database (sort_key snd ?sel) = (rows, e)"
    by (simp add: Query_places_def split: if_splits)
  then obtain n where rows: "rows = take n (sort_key snd ?sel)"
    using delivered_rows by blast
  have "sorted (map snd (sort_key snd ?sel))" by (rule sorted_sort_key)
  then have "sorted (take n (map snd (sort_key snd ?sel)))" by (rule sorted_wrt_take)
  then have a: "sorted (map snd rows)" by (simp add: rows take_map)
  have "set rows \<subseteq> set ?sel" unfolding rows using set_take_subset [of n "sort_key snd ?sel"] by simp
  moreover have "since < d \<and>
       (\<exists>r \<in> set (moz_places database). place_url r = u \<and> last_visit_date r = Some d)"
    if "(u, d) \<in> set ?sel" for u d
    using that by (auto split: option.splits if_splits)
  ultimately have b: "\<forall>(u, d) \<in> set rows. since < d \<and>
       (\<exists>r \<in> set (moz_places database). place_url r = u \<and> last_visit_date r = Some d)"
    by blast
  from a b show ?thesis ..
qed

lemma Query_visits_rows:
  assumes "Query_visits database since = Inr (rows, e)"
  shows "sorted (map snd rows) \<and>
    (\<forall>(u, v) \<in> set rows. since < v \<and>
       (\<exists>hv \<in> set (history_visits database). \<exists>hi \<in> set (history_items database).
          history_item hv = item_id hi \<and> item_url hi = u \<and> visit_time hv = v))"
proof -
  let ?sel = "concat (map (\<lambda>hv.
                     concat (map (\<lambda>hi.
                        if history_item hv = item_id hi \<and> visit_time hv > since
                        then [(item_url hi, visit_time hv)] else [])
                       (history_items database)))
                   (history_visits database))"
  from assms have "delivered database (sort_key snd ?sel) = (rows, e)"
    by (simp add: Query_visits_def split: if_splits)
  then obtain n where rows: "rows = take n (sort_key snd ?sel)"
    using delivered_rows by blast
  have "sorted (map snd (sort_key snd ?sel))" by (rule sorted_sort_key)
  then have "sorted (take n (map snd (sort_key snd ?sel)))" by (rule sorted_wrt_take)
  then have a: "sorted (map snd rows)" by (simp add: rows take_map)
  have "set rows \<subseteq> set ?sel" unfolding rows using set_take_subset [of n "sort_key snd ?sel"] by simp
  moreover have "since < v \<and>
       (\<exists>hv \<in> set (history_visits database). \<exists>hi \<in> set (history_items database).
          history_item hv = item_id hi \<and> item_url hi = u \<and> visit_time hv = v)"
    if "(u, v) \<in> set ?sel" for u v
    using that by (auto split: if_splits)
  ultimately have b: "\<forall>(u, v) \<in> set rows. since < v \<and>
       (\<exists>hv \<in> set (history_visits database). \<exists>hi \<in> set (history_items database).
          history_item hv = item_id hi \<and> item_url hi = u \<and> visit_time hv = v)"
    by blast
  from a b show ?thesis ..
qed


lemma quot_1000_times: "quot (W * 1000) 1000 = W"
proof (cases "0 \<le> W")
  case True
  then show ?thesis by (simp add: quot_1000)
next
  case False
  have "- (W * 1000) = (- W) * 1000" by simp
  then have "(- (W * 1000)) div 1000 = - W" by (simp only: nonzero_mult_div_cancel_right)
  with False show ?thesis by (simp add: quot_1000)
qed

lemma FirefoxGetHistory_ordered:
  assumes run: "FirefoxGetHistory env profile W = (sites, err)"
    and W: "- (2 ^ 63) \<le> W * 1000" "W * 1000 < 2 ^ 63"
  shows "sorted (map Timestamp sites) \<and>
    (\<forall>s \<in> set sites. W \<le> Timestamp s) \<and>
    (\<forall>s \<in> set sites. \<exists>database r d.
        db_Open env (Join env [Path profile, ''places.sqlite'']) = Some database \<and>
        r \<in> set (moz_places database) \<and> place_url r = Some (URL s) \<and>
        last_visit_date r = Some d \<and> Timestamp s = firefoxUnixMs d \<and>
        firefoxTimestamp W < d)"
proof (cases "\<exists>database rows. db_Open env (Join env [Path profile, ''places.sqlite'']) = Some database \<and>
    Query_places database (firefoxTimestamp W) = Inr (rows, err)")
  case False
  with run have "sites = []"
    by (auto simp add: FirefoxGetHistory_def Let_def split: option.splits sum.splits)
  then show ?thesis by simp
next
  case True
  then obtain database rows
    where db: "db_Open env (Join env [Path profile, ''places.sqlite'']) = Some database"
      and q: "Query_places database (firefoxTimestamp W) = Inr (rows, err)"
    by blast
  let ?site = "\<lambda>(u, d). \<lparr>URL = the u, Timestamp = firefoxUnixMs d\<rparr>"
  let ?ok = "filter (\<lambda>(u, d). u \<noteq> None) rows"
  from run db q have sites: "sites = map ?site ?ok"
    by (simp add: FirefoxGetHistory_def Let_def scan_places_map)
  have fw: "firefoxTimestamp W = W * 1000" using W by (simp add: firefoxTimestamp_def wrap64_id)
  from Query_places_rows [OF q]
  have srt: "sorted (map snd rows)"
    and sel: "\<forall>(u, d) \<in> set rows. firefoxTimestamp W < d \<and>
       (\<exists>r \<in> set (moz_places database). place_url r = u \<and> last_visit_date r = Some d)"
    by simp_all
  have "sorted_wrt (\<lambda>x y. snd x \<le> snd y) rows"
    using srt by (simp add: sorted_map)
  then have "sorted_wrt (\<lambda>x y. firefoxUnixMs (snd x) \<le> firefoxUnixMs (snd y)) rows"
    by (rule sorted_wrt_mono_rel [rotated]) (simp add: firefoxUnixMs_def quot_1000_mono)
  then have "sorted_wrt (\<lambda>x y. firefoxUnixMs (snd x) \<le> firefoxUnixMs (snd y)) ?ok"
    by (rule sorted_wrt_filter)
  then have a: "sorted (map Timestamp sites)"
    by (simp add: sites sorted_map case_prod_beta)
  have b: "W \<le> Timestamp s" if "s \<in> set sites" for s
  proof -
    from that obtain u d where r: "(u, d) \<in> set rows" "s = ?site (u, d)"
      by (auto simp add: sites)
    from sel r(1) have "W * 1000 < d" by (auto simp add: fw)
    then have "quot (W * 1000) 1000 \<le> quot d 1000" by (intro quot_1000_mono) simp
    with r(2) show ?thesis by (simp add: quot_1000_times firefoxUnixMs_def)
  qed
  have d: "\<exists>database r d.
        db_Open env (Join env [Path profile, ''places.sqlite'']) = Some database \<and>
        r \<in> set (moz_places database) \<and> place_url r = Some (URL s) \<and>
        last_visit_date r = Some d \<and> Timestamp s = firefoxUnixMs d \<and>
        firefoxTimestamp W < d" if "s \<in> set sites" for s
  proof -
    from that obtain u d where r: "(u, d) \<in> set rows" "u \<noteq> None" "s = ?site (u, d)"
      by (auto simp add: sites)
    from sel r(1) obtain pr where pr: "firefoxTimestamp W < d" "pr \<in> set (moz_places database)"
      "place_url pr = u" "last_visit_date pr = Some d" by auto
    from r(2,3) have "u = Some (URL s)" "Timestamp s = firefoxUnixMs d" by auto
    with db pr show ?thesis by blast
  qed
  from a b d show ?thesis by blast
qed

lemma int64_of_float64_mono:
  assumes "\<bar>x\<bar> < 2 ^ 63" and "\<bar>y\<bar> < 2 ^ 63" and "x \<le> y"
  shows "int64_of_float64 x \<le> int64_of_float64 y"
proof -
  have r: "- (2 ^ 63) \<le> (if 0 \<le> z then \<lfloor>z\<rfloor> else \<lceil>z\<rceil>) \<and>
      (if 0 \<le> z then \<lfloor>z\<rfloor> else \<lceil>z\<rceil>) < 2 ^ 63" if "\<bar>z\<bar> < 2 ^ 63" for z :: rat
  proof (cases "0 \<le> z")
    case True
    with that have "z < of_int (2 ^ 63)" by simp
    then have "\<lfloor>z\<rfloor> < 2 ^ 63" by (simp only: floor_less_iff)
    moreover have "0 \<le> \<lfloor>z\<rfloor>" using True by simp
    ultimately show ?thesis using True by simp
  next
    case False
    with that have "of_int (- (2 ^ 63)) < z" by simp
    then have "- (2 ^ 63) < \<lceil>z\<rceil>" by (simp only: less_ceiling_iff)
    moreover have "\<lceil>z\<rceil> \<le> 0" using False by (simp add: ceiling_le_iff)
    ultimately show ?thesis using False by simp
  qed
  have "(if 0 \<le> x then \<lfloor>x\<rfloor> else \<lceil>x\<rceil>) \<le> (if 0 \<le> y then \<lfloor>y\<rfloor> else \<lceil>y\<rceil>)"
  proof (cases "0 \<le> x")
    case True
    with assms(3) show ?thesis by (simp add: floor_mono)
  next
    case False
    show ?thesis
    proof (cases "0 \<le> y")
      case True
      have "\<lceil>x\<rceil> \<le> 0" using False by (simp add: ceiling_le_iff)
      also have "0 \<le> \<lfloor>y\<rfloor>" using True by simp
      finally show ?thesis using False True by simp
    next
      case y: False
      with False assms(3) show ?thesis by (simp add: ceiling_mono)
    qed
  qed
  with r [OF assms(1)] r [OF assms(2)] show ?thesis
    by (simp add: int64_of_float64_def Let_def)
qed

lemma safari_product_range:
  assumes "\<bar>v\<bar> \<le> 2 ^ 40"
  shows "\<bar>float64 (float64 (v + 978307200) * 1000)\<bar> < 2 ^ 63"
proof -
  have e1: "float64 (of_int (2 ^ 41)) = of_int (2 ^ 41)" by (rule float64_of_int) simp
  have e2: "float64 (of_int (1000 * 2 ^ 41)) = of_int (1000 * 2 ^ 41)"
    by (rule float64_of_int) simp
  from assms have s: "- (2 ^ 41) \<le> v + 978307200" "v + 978307200 \<le> 2 ^ 41" by simp_all
  have "float64 (v + 978307200) \<le> float64 (of_int (2 ^ 41))"
    by (rule float64_mono) (use s in simp)
  then have u1: "float64 (v + 978307200) \<le> 2 ^ 41" using e1 by simp
  have "float64 (- of_int (2 ^ 41)) \<le> float64 (v + 978307200)"
    by (rule float64_mono) (use s in simp)
  then have l1: "- (2 ^ 41) \<le> float64 (v + 978307200)"
    using e1 by (simp add: float64_minus)
  have "float64 (float64 (v + 978307200) * 1000) \<le> float64 (of_int (1000 * 2 ^ 41))"
    by (rule float64_mono) (use u1 in simp)
  then have u2: "float64 (float64 (v + 978307200) * 1000) \<le> 1000 * 2 ^ 41" using e2 by simp
  have "float64 (- of_int (1000 * 2 ^ 41)) \<le> float64 (float64 (v + 978307200) * 1000)"
    by (rule float64_mono) (use l1 in simp)
  then have l2: "- (1000 * 2 ^ 41) \<le> float64 (float64 (v + 978307200) * 1000)"
    using e2 by (simp add: float64_minus)
  from u2 l2 show ?thesis by simp
qed

lemma safariUnixMs_mono:
  assumes "\<bar>a\<bar> \<le> 2 ^ 40" and "\<bar>b\<bar> \<le> 2 ^ 40" and "a \<le> b"
  shows "safariUnixMs a \<le> safariUnixMs b"
proof -
  have "float64 (a + 978307200) \<le> float64 (b + 978307200)"
    by (rule float64_mono) (use assms(3) in simp)
  then have "float64 (float64 (a + 978307200) * 1000) \<le> float64 (float64 (b + 978307200) * 1000)"
    by (intro float64_mono) simp
  with safari_product_range [OF assms(1)] safari_product_range [OF assms(2)]
  show ?thesis unfolding safariUnixMs_def by (rule int64_of_float64_mono)
qed

lemma SafariGetHistory_ordered:
  assumes run: "SafariGetHistory env profile W = (sites, err)"
    and range: "\<forall>database. db_Open env (Join env [Path profile, ''History.db'']) = Some database
          \<longrightarrow> (\<forall>hv \<in> set (history_visits database). \<bar>visit_time hv\<bar> \<le> 2 ^ 40)"
  shows "sorted (map Timestamp sites) \<and>
    (\<forall>s \<in> set sites. \<exists>database hv hi.
        db_Open env (Join env [Path profile, ''History.db'']) = Some database \<and>
        hv \<in> set (history_visits database) \<and> hi \<in> set (history_items database) \<and>
        history_item hv = item_id hi \<and> item_url hi = Some (URL s) \<and>
        Timestamp s = safariUnixMs (visit_time hv) \<and>
        safariTimestamp W < visit_time hv)"
proof (cases "\<exists>database rows. db_Open env (Join env [Path profile, ''History.db'']) = Some database \<and>
    Query_visits database (safariTimestamp W) = Inr (rows, err)")
  case False
  with run have "sites = []"
    by (auto simp add: SafariGetHistory_def Let_def split: option.splits sum.splits)
  then show ?thesis by simp
next
  case True
  then obtain database rows
    where db: "db_Open env (Join env [Path profile, ''History.db'']) = Some database"
      and q: "Query_visits database (safariTimestamp W) = Inr (rows, err)"
    by blast
  let ?site = "\<lambda>(u, v). \<lparr>URL = the u, Timestamp = safariUnixMs v\<rparr>"
  let ?ok = "filter (\<lambda>(u, v). u \<noteq> None) rows"
  from run db q have sites: "sites = map ?site ?ok"
    by (simp add: SafariGetHistory_def Let_def scan_visits_map)
  from Query_visits_rows [OF q]
  have srt: "sorted (map snd rows)"
    and sel: "\<forall>(u, v) \<in> set rows. safariTimestamp W < v \<and>
       (\<exists>hv \<in> set (history_visits database). \<exists>hi \<in> set (history_items database).
          history_item hv = item_id hi \<and> item_url hi = u \<and> visit_time hv = v)"
    by simp_all
  have rg: "\<bar>snd x\<bar> \<le> 2 ^ 40" if "x \<in> set rows" for x
  proof -
    obtain u v where x: "x = (u, v)" by (cases x)
    with that sel obtain hv where "hv \<in> set (history_visits database)" "visit_time hv = v"
      by auto
    with range db x show ?thesis by auto
  qed
  have "sorted_wrt (\<lambda>x y. snd x \<le> snd y) rows"
    using srt by (simp add: sorted_map)
  then have "sorted_wrt (\<lambda>x y. safariUnixMs (snd x) \<le> safariUnixMs (snd y)) rows"
    by (rule sorted_wrt_mono_rel [rotated]) (rule safariUnixMs_mono, rule rg, assumption, rule rg)
  then have "sorted_wrt (\<lambda>x y. safariUnixMs (snd x) \<le> safariUnixMs (snd y)) ?ok"
    by (rule sorted_wrt_filter)
  then have a: "sorted (map Timestamp sites)"
    by (simp add: sites sorted_map case_prod_beta)
  have d: "\<exists>database hv hi.
        db_Open env (Join env [Path profile, ''History.db'']) = Some database \<and>
        hv \<in> set (history_visits database) \<and> hi \<in> set (history_items database) \<and>
        history_item hv = item_id hi \<and> item_url hi = Some (URL s) \<and>
        Timestamp s = safariUnixMs (visit_time hv) \<and>
        safariTimestamp W < visit_time hv" if "s \<in> set sites" for s
  proof -
    from that obtain u v where r: "(u, v) \<in> set rows" "u \<noteq> None" "s = ?site (u, v)"
      by (auto simp add: sites)
    from sel r(1) obtain hv hi where h: "safariTimestamp W < v"
      "hv \<in> set (history_visits database)" "hi \<in> set (history_items database)"
      "history_item hv = item_id hi" "item_url hi = u" "visit_time hv = v" by auto
    from r(2,3) have "u = Some (URL s)" "Timestamp s = safariUnixMs v" by auto
    with db h show ?thesis by blast
  qed
  from a d show ?thesis by blast
qed

end
